theory Spec2Isabelle
  imports Complex_Main "HOL-Library.AList"
begin

section \<open>JSON values and JavaScript objects\<close>

text \<open>
  The locale files are read with \<open>JSON.parse\<close>. A parsed value is \<open>null\<close>, a boolean, a
  number, a string, an array or an object. A finite double is a rational number, so a
  number is kept as the \<open>rat\<close> it denotes. A string is kept as the list of its UTF-8
  bytes: equality of strings and splitting at the ASCII full stop are the same on bytes as
  on UTF-16 code units. An object is the list of its own entries in \<open>Object.entries\<close>
  order; the keys of an object are pairwise different.
\<close>

datatype json =
    JNull
  | JBool bool
  | JNum rat
  | JStr string
  | JArr "json list"
  | JObj "(string \<times> json) list"

type_synonym entries = "(string \<times> json) list"

text \<open>The measure of an entry list under which every nested object is smaller.\<close>

definition entries_size :: "entries \<Rightarrow> nat" where
  "entries_size kvs = size_list (size_prod (\<lambda>_. 0) size) kvs"

section \<open>The translation report (scripts/generate_i18n_report.js)\<close>

text \<open>
  \<^verbatim>\<open>
  function deepKeys(obj, prefix = '') {
    let keys = [];
    for (const [key, value] of Object.entries(obj)) {
      const fullKey = prefix ? `${prefix}.${key}` : key;
      if (typeof value === 'object' && value !== null && !Array.isArray(value)) {
        keys = keys.concat(deepKeys(value, fullKey));
      } else {
        keys.push(fullKey);
      }
    }
    return keys;
  }
  \<close>
  The empty prefix is falsy, so an entry under it gets its bare key.
\<close>

definition fullKey :: "string \<Rightarrow> string \<Rightarrow> string" where
  "fullKey prefix key = (if prefix = [] then key else prefix @ ''.'' @ key)"

function deepKeys :: "entries \<Rightarrow> string \<Rightarrow> string list" where
  "deepKeys [] prefix = []"
| "deepKeys ((key, v) # rest) prefix =
     (case v of
        JObj sub \<Rightarrow> deepKeys sub (fullKey prefix key)
      | _ \<Rightarrow> [fullKey prefix key])
     @ deepKeys rest prefix"
  by pat_completeness auto
termination
  by (relation "measure (\<lambda>(kvs, p). entries_size kvs)") (auto simp: entries_size_def)

text \<open>
  \<^verbatim>\<open>
  function getValueByPath(obj, path) {
    return path.split('.').reduce((current, key) => current?.[key], obj);
  }
  \<close>
  A property read yields \<open>undefined\<close>, a JSON value, or something the runtime provides.
  What a read yields when the value is not a plain object with an own entry of that name
  (an inherited method, the length or an index of a string or an array) is decided by the
  JavaScript runtime, which is no part of the repository: it is the parameter \<open>rt\<close>.
\<close>

datatype jsval = Undefined | J json | Native string

fun split_dot :: "string \<Rightarrow> string list" where
  "split_dot [] = [[]]"
| "split_dot (c # cs) =
     (if c = CHR ''.'' then [] # split_dot cs
      else (case split_dot cs of
              [] \<Rightarrow> [[c]]
            | p # ps \<Rightarrow> (c # p) # ps))"

fun getProp :: "(jsval \<Rightarrow> string \<Rightarrow> jsval) \<Rightarrow> jsval \<Rightarrow> string \<Rightarrow> jsval" where
  "getProp rt Undefined key = Undefined"
| "getProp rt (J JNull) key = Undefined"
| "getProp rt (J (JObj kvs)) key =
     (case map_of kvs key of
        Some v \<Rightarrow> J v
      | None \<Rightarrow> rt (J (JObj kvs)) key)"
| "getProp rt cur key = rt cur key"

definition getValueByPath :: "(jsval \<Rightarrow> string \<Rightarrow> jsval) \<Rightarrow> json \<Rightarrow> string \<Rightarrow> jsval" where
  "getValueByPath rt obj path = foldl (getProp rt) (J obj) (split_dot path)"

text \<open>A runtime without inherited properties, for reads that find an own entry.\<close>

definition no_inherited :: "jsval \<Rightarrow> string \<Rightarrow> jsval" where
  "no_inherited cur key = Undefined"

text \<open>
  The operator \<open>!\<close> tests truthiness: \<open>undefined\<close>, \<open>null\<close>, \<open>false\<close>, \<open>0\<close> and the empty
  string are falsy, every object, array and function is truthy.
\<close>

fun truthy :: "jsval \<Rightarrow> bool" where
  "truthy Undefined = False"
| "truthy (J JNull) = False"
| "truthy (J (JBool b)) = b"
| "truthy (J (JNum n)) = (n \<noteq> 0)"
| "truthy (J (JStr s)) = (s \<noteq> [])"
| "truthy (J (JArr xs)) = True"
| "truthy (J (JObj kvs)) = True"
| "truthy (Native f) = True"

text \<open>
  \<^verbatim>\<open>
  const enKeys = deepKeys(enData);
  const arKeys = deepKeys(arData);
  const missingInAr = enKeys.filter(key => !getValueByPath(arData, key));
  const arCoverage = arKeys.length / enKeys.length * 100;
  ... coverage_percentage: Math.round(arCoverage * 100) / 100,
      missing_keys: missingInAr
  \<close>
\<close>

definition missing_keys :: "(jsval \<Rightarrow> string \<Rightarrow> jsval) \<Rightarrow> entries \<Rightarrow> entries \<Rightarrow> string list" where
  "missing_keys rt enData locData =
     filter (\<lambda>key. \<not> truthy (getValueByPath rt (JObj locData) key)) (deepKeys enData [])"

text \<open>
  The numbers of the script are IEEE 754 doubles, and \<open>/\<close> and \<open>*\<close> round their exact
  result to the nearest double, a tie to the double with the even significand. A double
  is kept as the real number it is. \<open>fl x\<close> is the double nearest to \<open>x\<close>: with
  \<open>2 ^ e \<le> \<bar>x\<bar> < 2 ^ (e + 1)\<close> the doubles around \<open>x\<close> are the multiples of
  \<open>2 ^ (e - 52)\<close>, the 53 bits of a significand. The exponent range of a double is not
  modelled: the numbers of this computation are quotients of two array lengths, which are
  below \<open>2 ^ 32\<close>, times at most 10000, and lie well inside it.
\<close>

definition round_even :: "real \<Rightarrow> int" where
  "round_even q =
     (let f = \<lfloor>q\<rfloor>; r = q - of_int f
      in if r < 1 / 2 then f
         else if 1 / 2 < r then f + 1
         else if even f then f else f + 1)"

definition fl :: "real \<Rightarrow> real" where
  "fl x =
     (if x = 0 then 0
      else (let e = \<lfloor>log 2 \<bar>x\<bar>\<rfloor>;
                ulp = 2 powr (of_int e - 52)
            in sgn x * (of_int (round_even (\<bar>x\<bar> / ulp)) * ulp)))"

definition fdiv :: "real \<Rightarrow> real \<Rightarrow> real" where
  "fdiv a b = fl (a / b)"

definition fmul :: "real \<Rightarrow> real \<Rightarrow> real" where
  "fmul a b = fl (a * b)"

text \<open>
  \<open>Math.round\<close> yields the integer nearest to its argument, a half upwards; the integers
  of this computation are doubles. With no English key the quotient is \<open>NaN\<close> or
  \<open>Infinity\<close>, which is \<open>None\<close> here.
\<close>

definition Math_round :: "'a::floor_ceiling \<Rightarrow> int" where
  "Math_round x = \<lfloor>x + 1 / 2\<rfloor>"

definition coverage :: "nat \<Rightarrow> nat \<Rightarrow> real option" where
  "coverage locCount enCount =
     (if enCount = 0 then None
      else (let cov = fmul (fdiv (of_nat locCount) (of_nat enCount)) 100
            in Some (fdiv (of_int (Math_round (fmul cov 100))) 100)))"

definition coverage_percentage :: "entries \<Rightarrow> entries \<Rightarrow> real option" where
  "coverage_percentage enData locData =
     coverage (length (deepKeys locData [])) (length (deepKeys enData []))"

section \<open>Locale direction (src/lib/i18n-utils.ts)\<close>

text \<open>
  \<^verbatim>\<open>
  export const isRTL = (locale: string): boolean => {
    const rtlLocales = ['ar', 'he', 'fa', 'ur'];
    return rtlLocales.includes(locale);
  };
  export const getTextDirection = (locale: string): 'ltr' | 'rtl' => {
    return isRTL(locale) ? 'rtl' : 'ltr';
  };
  \<close>
  \<open>Array.prototype.includes\<close> on strings is equality of the strings, so it is list
  membership.
\<close>

definition rtlLocales :: "string list" where
  "rtlLocales = [''ar'', ''he'', ''fa'', ''ur'']"

definition isRTL :: "string \<Rightarrow> bool" where
  "isRTL loc = (loc \<in> set rtlLocales)"

definition getTextDirection :: "string \<Rightarrow> string" where
  "getTextDirection loc = (if isRTL loc then ''rtl'' else ''ltr'')"

section \<open>The auto-translation script: merging with the existing translations\<close>

text \<open>
  \<^verbatim>\<open>
  function mergeTranslations(existing, translated) {
    const result = { ...translated };
    for (const [key, value] of Object.entries(existing)) {
      if (typeof value === 'object' && value !== null && !Array.isArray(value)) {
        if (result[key] && typeof result[key] === 'object') {
          result[key] = mergeTranslations(value, result[key]);
        } else {
          result[key] = value; // Keep existing translation
        }
      } else {
        result[key] = value; // Keep existing translation
      }
    }
    return result;
  }
  \<close>
  The function reads and writes properties of \<open>result\<close> by name, and a name may be
  \<open>__proto__\<close>: \<open>JSON.parse\<close> and the spread make an own entry of that name, but the
  assignment \<open>result['__proto__'] = value\<close> on an object without such an own entry calls
  the setter that \<open>Object.prototype\<close> has for it, which replaces the prototype of
  \<open>result\<close> when the value is an object or \<open>null\<close> and does nothing otherwise. So an
  object here is the list of its own entries together with its prototype: the standard one
  (\<open>Object.prototype\<close>), none (\<open>null\<close>), or an object set by such an assignment.
\<close>

datatype jsv =
    VNull
  | VBool bool
  | VNum rat
  | VStr string
  | VArr "jsv list"
  | VObj "(string \<times> jsv) list" proto
  | ObjectPrototype
and proto = StandardProto | NoProto | SetProto jsv

type_synonym js_object = "(string \<times> jsv) list \<times> proto"

text \<open>A parsed value as a value of the running program: its objects have the standard prototype.\<close>

function of_json :: "json \<Rightarrow> jsv" and of_entries :: "entries \<Rightarrow> (string \<times> jsv) list" where
  "of_json JNull = VNull"
| "of_json (JBool b) = VBool b"
| "of_json (JNum n) = VNum n"
| "of_json (JStr s) = VStr s"
| "of_json (JArr xs) = VArr (map of_json xs)"
| "of_json (JObj kvs) = VObj (of_entries kvs) StandardProto"
| "of_entries [] = []"
| "of_entries ((k, v) # rest) = (k, of_json v) # of_entries rest"
  by pat_completeness auto
termination
proof (relation "measure (\<lambda>x. case x of Inl v \<Rightarrow> 2 * size v | Inr kvs \<Rightarrow> 2 * entries_size kvs + 1)")
  show "(Inl x, Inl (JArr xs))
      \<in> measure (\<lambda>x. case x of Inl v \<Rightarrow> 2 * size v | Inr kvs \<Rightarrow> 2 * entries_size kvs + 1)"
    if "x \<in> set xs" for xs :: "json list" and x
    using size_list_estimation' [OF that order_refl, of size] by simp
qed (auto simp: entries_size_def)

text \<open>
  The own entries of an array are its elements, named by their index in decimal.
\<close>

fun digit_char :: "nat \<Rightarrow> char" where
  "digit_char n = char_of (48 + n)"

fun decimal :: "nat \<Rightarrow> string" where
  "decimal n = (if n < 10 then [digit_char n] else decimal (n div 10) @ [digit_char (n mod 10)])"

definition array_entries :: "'a list \<Rightarrow> (string \<times> 'a) list" where
  "array_entries xs = zip (map decimal [0 ..< length xs]) xs"

text \<open>
  Reading \<open>obj[key]\<close>. An own entry is found first. Otherwise the prototype chain is
  searched: \<open>chain_data\<close> is the data property that an object set as prototype, or an
  object further up, has under that name (an entry of an object, an element or the length
  of an array). The remaining properties of the chain are those of the built-in
  prototypes: they are functions, for which the read yields \<open>None\<close> here as it does for
  \<open>undefined\<close>, but for \<open>__proto__\<close>, whose getter on \<open>Object.prototype\<close> yields the
  prototype of the object that is read. \<open>std_chain\<close> says that the chain ends in
  \<open>Object.prototype\<close>.
\<close>

fun chain_data :: "proto \<Rightarrow> string \<Rightarrow> jsv option" where
  "chain_data (SetProto (VObj own pr)) key =
     (case map_of own key of
        Some v \<Rightarrow> Some v
      | None \<Rightarrow> chain_data pr key)"
| "chain_data (SetProto (VArr xs)) key =
     (case map_of (array_entries xs) key of
        Some v \<Rightarrow> Some v
      | None \<Rightarrow> if key = ''length'' then Some (VNum (of_nat (length xs))) else None)"
| "chain_data pr key = None"

fun std_chain :: "proto \<Rightarrow> bool" where
  "std_chain StandardProto = True"
| "std_chain NoProto = False"
| "std_chain (SetProto (VObj own pr)) = std_chain pr"
| "std_chain (SetProto (VArr xs)) = True"
| "std_chain (SetProto ObjectPrototype) = True"
| "std_chain (SetProto v) = False"

fun proto_value :: "proto \<Rightarrow> jsv" where
  "proto_value StandardProto = ObjectPrototype"
| "proto_value NoProto = VNull"
| "proto_value (SetProto v) = v"

definition get_prop :: "js_object \<Rightarrow> string \<Rightarrow> jsv option" where
  "get_prop obj key =
     (case map_of (fst obj) key of
        Some v \<Rightarrow> Some v
      | None \<Rightarrow>
          (case chain_data (snd obj) key of
             Some v \<Rightarrow> Some v
           | None \<Rightarrow>
               if key = ''__proto__'' \<and> std_chain (snd obj) then Some (proto_value (snd obj))
               else None))"

text \<open>
  Writing \<open>obj[key] = value\<close>. An own entry is replaced. Otherwise, a data property found
  in the chain is writable, and so is a built-in function, and the write makes a new own
  entry; so does a write of a name that the chain does not have. Only for \<open>__proto__\<close>,
  when no object of the chain has a data property of that name and the chain ends in
  \<open>Object.prototype\<close>, the write calls the setter.
\<close>

fun is_object :: "jsv \<Rightarrow> bool" where
  "is_object (VObj own pr) = True"
| "is_object (VArr xs) = True"
| "is_object ObjectPrototype = True"
| "is_object v = False"

definition set_prototype :: "proto \<Rightarrow> jsv \<Rightarrow> proto" where
  "set_prototype pr v = (if is_object v then SetProto v else if v = VNull then NoProto else pr)"

definition set_prop :: "js_object \<Rightarrow> string \<Rightarrow> jsv \<Rightarrow> js_object" where
  "set_prop obj key v =
     (if key \<in> fst ` set (fst obj) then (AList.update key v (fst obj), snd obj)
      else if key = ''__proto__'' \<and> chain_data (snd obj) key = None \<and> std_chain (snd obj)
      then (fst obj, set_prototype (snd obj) v)
      else (fst obj @ [(key, v)], snd obj))"

text \<open>
  The spread \<open>{ ...translated }\<close> makes an object with the standard prototype from the own
  enumerable entries of \<open>translated\<close>; \<open>Object.prototype\<close> has none.
\<close>

fun spread :: "jsv \<Rightarrow> (string \<times> jsv) list" where
  "spread (VObj own pr) = own"
| "spread (VArr xs) = array_entries xs"
| "spread v = []"

text \<open>
  The loop over \<open>Object.entries(existing)\<close>, with \<open>result\<close> as its state. \<open>existing\<close> is
  a parsed object. \<open>result[key]\<close> is truthy with \<open>typeof\<close> \<open>'object'\<close> when it is an
  object or an array.
\<close>

function merge_loop :: "entries \<Rightarrow> js_object \<Rightarrow> js_object" where
  "merge_loop [] result = result"
| "merge_loop ((key, v) # rest) result =
     merge_loop rest
       (case v of
          JObj sub \<Rightarrow>
            (case get_prop result key of
               Some r \<Rightarrow>
                 if is_object r
                 then (case merge_loop sub (spread r, StandardProto) of
                         (own, pr) \<Rightarrow> set_prop result key (VObj own pr))
                 else set_prop result key (of_json v)
             | None \<Rightarrow> set_prop result key (of_json v))
        | _ \<Rightarrow> set_prop result key (of_json v))"
  by pat_completeness auto
termination
  by (relation "measure (\<lambda>(ex, r). entries_size ex)") (auto simp: entries_size_def)

definition mergeTranslations :: "entries \<Rightarrow> entries \<Rightarrow> jsv" where
  "mergeTranslations existing translated =
     (case merge_loop existing (of_entries translated, StandardProto) of
        (own, pr) \<Rightarrow> VObj own pr)"

text \<open>
  The value that is read at a path of keys: through the properties of objects, own or
  inherited, and the elements of arrays.
\<close>

fun holds_at :: "jsv \<Rightarrow> string list \<Rightarrow> jsv option" where
  "holds_at v [] = Some v"
| "holds_at (VObj own pr) (k # ks) =
     (case get_prop (own, pr) k of
        None \<Rightarrow> None
      | Some v \<Rightarrow> holds_at v ks)"
| "holds_at (VArr xs) (k # ks) =
     (case map_of (array_entries xs) k of
        None \<Rightarrow> None
      | Some v \<Rightarrow> holds_at v ks)"
| "holds_at v (k # ks) = None"

text \<open>
  The parsed objects none of whose keys, at any level of nested objects, is \<open>__proto__\<close>
  (and whose keys are pairwise different, as the keys of an object are).
\<close>

function wf_entries :: "entries \<Rightarrow> bool" where
  "wf_entries [] = True"
| "wf_entries ((k, v) # rest) =
     (k \<noteq> ''__proto__'' \<and> k \<notin> fst ` set rest \<and>
      (case v of JObj sub \<Rightarrow> wf_entries sub | _ \<Rightarrow> True) \<and>
      wf_entries rest)"
  by pat_completeness auto
termination
  by (relation "measure entries_size") (auto simp: entries_size_def)

text \<open>
  What one round of the loop stores under \<open>key\<close>, given what \<open>result[key]\<close> reads.
\<close>

definition merged_entry :: "json \<Rightarrow> jsv option \<Rightarrow> jsv" where
  "merged_entry v old =
     (case v of
        JObj sub \<Rightarrow>
          (case old of
             Some r \<Rightarrow>
               if is_object r
               then (case merge_loop sub (spread r, StandardProto) of (own, pr) \<Rightarrow> VObj own pr)
               else of_json v
           | None \<Rightarrow> of_json v)
      | _ \<Rightarrow> of_json v)"

section \<open>Pages that call the external API\<close>

text \<open>
  The pages await \<open>fetch\<close> and \<open>response.json()\<close>. What the network answers is not
  decided by the repository, so the outcome of a request is an input of the model: the
  request is rejected with a thrown value, or it is answered with a response that has an
  \<open>ok\<close> flag, a status text and a body whose parsing is rejected or yields a value. A
  handler returns the new component state and the list of the requests it issued.
\<close>

datatype thrown = ErrorObject string | OtherValue

datatype body_outcome = JsonRejected thrown | JsonValue json

datatype fetch_outcome = Rejected thrown | Response bool string body_outcome

fun request_failed :: "fetch_outcome \<Rightarrow> bool" where
  "request_failed (Rejected t) = True"
| "request_failed (Response ok statusText body) = (\<not> ok)"

record 'r sim_state =
  isProcessing :: bool
  progress :: rat
  results :: "'r option"

text \<open>
  The simulated progress of both pages:
  \<^verbatim>\<open>
  for (let i = 0; i <= steps; i++) {
    await new Promise(resolve => setTimeout(resolve, 100));
    setProgress((i / steps) * 100);
  }
  \<close>
\<close>

definition simulate_progress :: "nat \<Rightarrow> ('r, 'z) sim_state_scheme \<Rightarrow> ('r, 'z) sim_state_scheme" where
  "simulate_progress steps s =
     foldl (\<lambda>s i. s\<lparr>progress := of_nat i / of_nat steps * 100\<rparr>) s [0 ..< Suc steps]"

subsection \<open>Quantum.tsx\<close>

text \<open>
  \<open>parseInt\<close> on the values of the feature-dimension Select, which are \<open>2\<close>, \<open>3\<close> and
  \<open>4\<close>: it reads the leading decimal digits, and a string without a leading digit gives
  \<open>NaN\<close>, which is \<open>None\<close>. (The runtime's \<open>parseInt\<close> also skips leading white space
  and reads a sign and a hexadecimal prefix.)
\<close>

definition is_digit :: "char \<Rightarrow> bool" where
  "is_digit c = (48 \<le> (of_char c :: nat) \<and> (of_char c :: nat) \<le> 57)"

definition parseInt :: "string \<Rightarrow> rat option" where
  "parseInt s =
     (let ds = takeWhile is_digit s
      in if ds = [] then None
         else Some (of_nat (foldl (\<lambda>n c. 10 * n + (of_char c - 48)) 0 ds)))"

record quantum_circuit_info =
  n_qubits :: rat
  feature_dimension :: "rat option"
  circuit_depth :: nat
  gate_count :: nat
  simulation_method :: string

record quantum_mock =
  predictions :: "nat list"
  probabilities :: "rat list list"
  quantum_circuit_info :: quantum_circuit_info
  processing_time :: rat

datatype quantum_result = QServerData json | QMock quantum_mock

record quantum_page = "quantum_result sim_state" +
  nQubits :: rat
  featureDimension :: string
  kernelType :: string

text \<open>
  The object literal of both fallback branches of \<open>handleQuantumSimulation\<close>:
  \<^verbatim>\<open>
  setResults({
    predictions: [2, 0, 1],
    probabilities: [[0.1, 0.2, 0.7], [0.8, 0.15, 0.05], [0.2, 0.6, 0.2]],
    quantum_circuit_info: {
      n_qubits: nQubits[0],
      feature_dimension: parseInt(featureDimension),
      circuit_depth: 4,
      gate_count: 12,
      simulation_method: "statevector"
    },
    processing_time: 2.3
  });
  \<close>
\<close>

definition quantum_fallback :: "rat \<Rightarrow> string \<Rightarrow> quantum_mock" where
  "quantum_fallback nq fd =
     \<lparr> predictions = [2, 0, 1],
       probabilities = [[1 / 10, 2 / 10, 7 / 10], [8 / 10, 15 / 100, 5 / 100], [2 / 10, 6 / 10, 2 / 10]],
       quantum_circuit_info =
         \<lparr> n_qubits = nq,
           feature_dimension = parseInt fd,
           circuit_depth = 4,
           gate_count = 12,
           simulation_method = ''statevector'' \<rparr>,
       processing_time = 23 / 10 \<rparr>"

text \<open>
  \<^verbatim>\<open>
  const handleQuantumSimulation = async () => {
    setIsProcessing(true);
    setProgress(0);
    const steps = 20;
    for (...) { ... setProgress((i / steps) * 100); }
    try {
      const response = await fetch('/api/qsvc', { method: 'POST', ... });
      if (response.ok) {
        const data = await response.json();
        setResults(data);
      } else {
        setResults({ ...mock... });
      }
    } catch (error) {
      console.error('Quantum simulation error:', error);
      setResults({ ...mock... });
    }
    setIsProcessing(false);
  };
  \<close>
  A rejection of \<open>response.json()\<close> is caught by the same \<open>catch\<close>.
\<close>

definition handleQuantumSimulation :: "fetch_outcome \<Rightarrow> quantum_page \<Rightarrow> quantum_page \<times> string list" where
  "handleQuantumSimulation net s0 =
     (let s1 = s0\<lparr>isProcessing := True, progress := 0\<rparr>;
          s2 = simulate_progress 20 s1;
          requests = [''/api/qsvc''];
          mock = QMock (quantum_fallback (nQubits s0) (featureDimension s0));
          s3 = (case net of
                  Rejected t \<Rightarrow> s2\<lparr>results := Some mock\<rparr>
                | Response ok statusText body \<Rightarrow>
                    if ok then
                      (case body of
                         JsonValue d \<Rightarrow> s2\<lparr>results := Some (QServerData d)\<rparr>
                       | JsonRejected t \<Rightarrow> s2\<lparr>results := Some mock\<rparr>)
                    else s2\<lparr>results := Some mock\<rparr>)
      in (s3\<lparr>isProcessing := False\<rparr>, requests))"

subsection \<open>Adversarial.tsx\<close>

record perturbation_stats =
  l0_norm :: rat
  l2_norm :: rat
  linf_norm :: rat

record adversarial_mock =
  original_predictions :: "nat list"
  adversarial_predictions :: "nat list"
  x_num_adv :: "rat list list"
  x_cat_adv :: "nat list list"
  success_rate :: rat
  perturbation_stats :: perturbation_stats
  attack_time :: rat

datatype adversarial_result = AServerData json | AMock adversarial_mock

record adversarial_page = "adversarial_result sim_state" +
  attackType :: string
  epsilon :: rat
  maxIterations :: rat

text \<open>
  The object literal of both fallback branches of \<open>handleAdversarialAttack\<close>:
  \<^verbatim>\<open>
  setResults({
    original_predictions: [2, 0, 1],
    adversarial_predictions: [0, 2, 0],
    x_num_adv: [[0.15, 0.18, 0.25, 0.38, 0.45]],
    x_cat_adv: [[1, 0]],
    success_rate: 0.67,
    perturbation_stats: { l0_norm: 2.3, l2_norm: 0.12, linf_norm: 0.08 },
    attack_time: 1.8
  });
  \<close>
\<close>

definition adversarial_fallback :: adversarial_mock where
  "adversarial_fallback =
     \<lparr> original_predictions = [2, 0, 1],
       adversarial_predictions = [0, 2, 0],
       x_num_adv = [[15 / 100, 18 / 100, 25 / 100, 38 / 100, 45 / 100]],
       x_cat_adv = [[1, 0]],
       success_rate = 67 / 100,
       perturbation_stats = \<lparr> l0_norm = 23 / 10, l2_norm = 12 / 100, linf_norm = 8 / 100 \<rparr>,
       attack_time = 18 / 10 \<rparr>"

text \<open>
  \<open>handleAdversarialAttack\<close> has the shape of \<open>handleQuantumSimulation\<close>, with 15 steps
  of progress and one POST to \<open>/api/adversarial\<close>.
\<close>

definition handleAdversarialAttack :: "fetch_outcome \<Rightarrow> adversarial_page \<Rightarrow> adversarial_page \<times> string list" where
  "handleAdversarialAttack net s0 =
     (let s1 = s0\<lparr>isProcessing := True, progress := 0\<rparr>;
          s2 = simulate_progress 15 s1;
          requests = [''/api/adversarial''];
          mock = AMock adversarial_fallback;
          s3 = (case net of
                  Rejected t \<Rightarrow> s2\<lparr>results := Some mock\<rparr>
                | Response ok statusText body \<Rightarrow>
                    if ok then
                      (case body of
                         JsonValue d \<Rightarrow> s2\<lparr>results := Some (AServerData d)\<rparr>
                       | JsonRejected t \<Rightarrow> s2\<lparr>results := Some mock\<rparr>)
                    else s2\<lparr>results := Some mock\<rparr>)
      in (s3\<lparr>isProcessing := False\<rparr>, requests))"

text \<open>The Quantum page as it is first rendered, and the same page with six qubits.\<close>

definition quantum_initial :: quantum_page where
  "quantum_initial =
     \<lparr> isProcessing = False, progress = 0, results = None,
       nQubits = 4, featureDimension = ''2'', kernelType = ''rbf'' \<rparr>"

definition adversarial_initial :: adversarial_page where
  "adversarial_initial =
     \<lparr> isProcessing = False, progress = 0, results = None,
       attackType = ''fgsm'', epsilon = 1 / 10, maxIterations = 10 \<rparr>"

subsection \<open>DataUpload.tsx\<close>











section \<open>The Demo page: the simulated training job\<close>

text \<open>
  \<^verbatim>\<open>
  const mockResults = [
    { id: "KIC-12345678", probability: 0.94, status: "planet", period: 3.2, depth: 0.012 },
    { id: "TIC-87654321", probability: 0.02, status: "no_planet", period: null, depth: null },
    { id: "KIC-11223344", probability: 0.78, status: "candidate", period: 12.7, depth: 0.008 },
  ];
  \<close>
  The records are objects, and an array holds references to them. The objects live in a
  store, a list in which the address of an object is its index; a new object is put at the
  end. An array of records is the list of their addresses. Numbers are reals.
\<close>

record result_rec =
  result_id :: string
  probability :: real
  status :: string
  period :: "real option"
  depth :: "real option"

definition mock_store :: "result_rec list" where
  "mock_store =
     [ \<lparr> result_id = ''KIC-12345678'', probability = 94 / 100, status = ''planet'',
         period = Some (32 / 10), depth = Some (12 / 1000) \<rparr>,
       \<lparr> result_id = ''TIC-87654321'', probability = 2 / 100, status = ''no_planet'',
         period = None, depth = None \<rparr>,
       \<lparr> result_id = ''KIC-11223344'', probability = 78 / 100, status = ''candidate'',
         period = Some (127 / 10), depth = Some (8 / 1000) \<rparr> ]"

record job_metrics =
  accuracy :: real
  precision :: real
  recall :: real

text \<open>
  The state that \<open>handleRunJob\<close> reads and writes: the store, the module-level array
  \<open>mockResults\<close>, the slider values \<open>learningRate[0]\<close> and \<open>epochs[0]\<close>, the variable
  \<open>current\<close> of the closure, whether the interval is still set, and the component state.
\<close>

record demo_page =
  store :: "result_rec list"
  mockResults :: "nat list"
  learningRate :: real
  epochs :: real
  current :: int
  interval :: bool
  jobRunning :: bool
  jobProgress :: int
  jobMetrics :: "job_metrics option"
  jobResults :: "nat list option"

text \<open>
  \<open>Number(x.toFixed(3))\<close> is \<open>x\<close> rounded to three decimal places, a half upwards.
\<close>

definition toFixed3 :: "real \<Rightarrow> real" where
  "toFixed3 x = of_int (Math_round (x * 1000)) / 1000"

text \<open>
  \<^verbatim>\<open>
  const acc = Math.max(0.7, Math.min(0.99,
    0.75 + Math.log10(1 + learningRate[0]) + epochs[0] * 0.002));
  const prec = Math.max(0.65, Math.min(0.98, acc - 0.02));
  const rec = Math.max(0.6, Math.min(0.97, acc - 0.03));
  setJobMetrics({
    accuracy: Number(acc.toFixed(3)),
    precision: Number(prec.toFixed(3)),
    recall: Number(rec.toFixed(3)),
  });
  \<close>
\<close>

definition mock_metrics :: "real \<Rightarrow> real \<Rightarrow> job_metrics" where
  "mock_metrics lr ep =
     (let acc = max (7 / 10) (min (99 / 100) (75 / 100 + log 10 (1 + lr) + ep * (2 / 1000)));
          prec = max (65 / 100) (min (98 / 100) (acc - 2 / 100));
          rec = max (6 / 10) (min (97 / 100) (acc - 3 / 100))
      in \<lparr> accuracy = toFixed3 acc, precision = toFixed3 prec, recall = toFixed3 rec \<rparr>)"

text \<open>
  \<^verbatim>\<open>
  const results = mockResults.map((r) => ({
    ...r,
    probability: Math.max(0, Math.min(1, r.probability + (learningRate[0] - 0.001) * 5)),
  }));
  \<close>
  The object literal makes a new object for every record; \<open>map\<close> makes a new array.
\<close>

definition shifted :: "real \<Rightarrow> result_rec \<Rightarrow> result_rec" where
  "shifted lr r = r\<lparr>probability := max 0 (min 1 (probability r + (lr - 1 / 1000) * 5))\<rparr>"

fun map_copy :: "real \<Rightarrow> result_rec list \<Rightarrow> nat list \<Rightarrow> result_rec list \<times> nat list" where
  "map_copy lr h [] = (h, [])"
| "map_copy lr h (a # as) =
     (case map_copy lr (h @ [shifted lr (h ! a)]) as of
        (h', rest) \<Rightarrow> (h', length h # rest))"

text \<open>
  \<^verbatim>\<open>
  const handleRunJob = () => {
    setJobRunning(true);
    setJobProgress(0);
    setJobMetrics(null);
    setJobResults(null);
    const total = 100;
    let current = 0;
    const interval = setInterval(() => {
      current += Math.max(1, Math.round(epochs[0] / 5));
      if (current >= total) {
        current = total;
        clearInterval(interval);
        ... setJobMetrics(...); ... setJobResults(results);
        setJobRunning(false);
      }
      setJobProgress(current);
    }, 60);
  };
  \<close>
  \<open>tick\<close> is one run of the interval's callback, \<open>finish_job\<close> its branch
  \<open>current >= total\<close>.
\<close>

definition handleRunJob :: "demo_page \<Rightarrow> demo_page" where
  "handleRunJob s =
     s\<lparr>jobRunning := True, jobProgress := 0, jobMetrics := None, jobResults := None,
       current := 0, interval := True\<rparr>"

definition finish_job :: "demo_page \<Rightarrow> demo_page" where
  "finish_job s =
     (case map_copy (learningRate s) (store s) (mockResults s) of
        (h, res) \<Rightarrow>
          s\<lparr>current := 100, interval := False,
            jobMetrics := Some (mock_metrics (learningRate s) (epochs s)),
            store := h, jobResults := Some res,
            jobRunning := False, jobProgress := 100\<rparr>)"

definition tick :: "demo_page \<Rightarrow> demo_page" where
  "tick s =
     (let c = current s + max 1 (Math_round (epochs s / 5))
      in if c \<ge> 100 then finish_job s
         else s\<lparr>current := c, jobProgress := c\<rparr>)"

text \<open>The timer runs the callback as long as the interval is set.\<close>

fun ticks :: "nat \<Rightarrow> demo_page \<Rightarrow> demo_page" where
  "ticks 0 s = s"
| "ticks (Suc n) s = (if interval s then ticks n (tick s) else s)"

definition job_measure :: "demo_page \<Rightarrow> nat" where
  "job_measure s = (if interval s then Suc (nat (100 - current s)) else 0)"

function run_job :: "demo_page \<Rightarrow> demo_page" where
  "run_job s = (if interval s then run_job (tick s) else s)"
  by pat_completeness auto
termination
  by (relation "measure job_measure")
    (auto simp: job_measure_def tick_def finish_job_def Let_def split: prod.splits)

declare run_job.simps [simp del]

text \<open>
  The state of a job that is running: the interval is set, and the progress shown is
  the variable \<open>current\<close>, below 100.
\<close>

definition running :: "demo_page \<Rightarrow> bool" where
  "running s =
     (interval s \<and> jobRunning s \<and> jobProgress s = current s \<and> 0 \<le> current s \<and> current s < 100)"

text \<open>
  The mock constants are as the module created them: \<open>mockResults\<close> holds the addresses
  0, 1 and 2, and the store has the three literal records there.
\<close>

definition mock_intact :: "demo_page \<Rightarrow> bool" where
  "mock_intact s = (mockResults s = [0, 1, 2] \<and> take 3 (store s) = mock_store)"

text \<open>The page as it is first rendered, with the given slider values.\<close>

definition demo_initial :: "real \<Rightarrow> real \<Rightarrow> demo_page" where
  "demo_initial lr ep =
     \<lparr> store = mock_store, mockResults = [0, 1, 2], learningRate = lr, epochs = ep,
       current = 0, interval = False, jobRunning = False, jobProgress = 0,
       jobMetrics = None, jobResults = None \<rparr>"

text \<open>
  What the \<open>k\<close>-th run of the callback does to the progress shown, for a run before the
  last one and for the last one: the interval is still set before it, the progress is
  below 100 before it, grows by at least 1, and is at most 100 after it.
\<close>

definition tick_ok :: "demo_page \<Rightarrow> nat \<Rightarrow> bool" where
  "tick_ok s k =
     (interval (ticks k s) \<and> jobProgress (ticks k s) < 100
      \<and> jobProgress (ticks k s) + 1 \<le> jobProgress (ticks (Suc k) s)
      \<and> jobProgress (ticks (Suc k) s) \<le> 100)"

section \<open>The Demo page: reading an uploaded light curve\<close>

text \<open>
  A JavaScript string is a sequence of UTF-16 code units, here natural numbers. The
  white space of \<open>trim()\<close> and of the class \<open>\s\<close> is the same set of code units: tab,
  line feed, vertical tab, form feed, carriage return, space, no-break space, and the
  Unicode spaces and separators listed below.
\<close>

type_synonym jsstring = "nat list"

definition lit :: "string \<Rightarrow> jsstring" where
  "lit s = map of_char s"

definition is_white :: "nat \<Rightarrow> bool" where
  "is_white c =
     (c \<in> set [9, 10, 11, 12, 13, 32, 160, 5760, 8232, 8233, 8239, 8287, 12288, 65279]
      \<or> (8192 \<le> c \<and> c \<le> 8202))"

definition trim :: "jsstring \<Rightarrow> jsstring" where
  "trim s = rev (dropWhile is_white (rev (dropWhile is_white s)))"

text \<open>
  \<open>text.split(/\r?\n/)\<close>: a line ends at a line feed, or at a carriage return that is
  followed by a line feed. The result always has a last piece, which may be empty.
\<close>

fun split_lines :: "jsstring \<Rightarrow> jsstring list" where
  "split_lines [] = [[]]"
| "split_lines [c] = (if c = 10 then [[], []] else [[c]])"
| "split_lines (c # d # cs) =
     (if c = 13 \<and> d = 10 then [] # split_lines cs
      else if c = 10 then [] # split_lines (d # cs)
      else (case split_lines (d # cs) of
              [] \<Rightarrow> [[c]]
            | l # ls \<Rightarrow> (c # l) # ls))"

text \<open>
  \<open>line.split(/,|\t|\s+/)\<close>: at a comma or a tab the separator is that one code unit; at
  any other white space it is the longest run of white space from there.
\<close>

function split_fields :: "jsstring \<Rightarrow> jsstring list" where
  "split_fields [] = [[]]"
| "split_fields (c # cs) =
     (if c = 44 \<or> c = 9 then [] # split_fields cs
      else if is_white c then [] # split_fields (dropWhile is_white cs)
      else (case split_fields cs of
              [] \<Rightarrow> [[c]]
            | p # ps \<Rightarrow> (c # p) # ps))"
  by pat_completeness auto
termination
  by (relation "measure length") (auto simp: less_Suc_eq_le length_dropWhile_le)

text \<open>\<open>s.includes(sub)\<close>: \<open>sub\<close> occurs in \<open>s\<close> at some position.\<close>

fun str_includes :: "jsstring \<Rightarrow> jsstring \<Rightarrow> bool" where
  "str_includes [] sub = (sub = [])"
| "str_includes (c # cs) sub = (take (length sub) (c # cs) = sub \<or> str_includes cs sub)"

text \<open>
  A number is a finite double, which is a rational number, or \<open>NaN\<close> or an infinity.
  \<open>Number\<close> and \<open>toLowerCase\<close> are functions of the runtime; the parser takes them as the
  parameters \<open>Number\<close> and \<open>lower\<close>. \<open>Number(undefined)\<close> is \<open>NaN\<close>.
\<close>

datatype jsnum = Finite rat | NaN | PosInfinity | NegInfinity

fun isFinite :: "jsnum \<Rightarrow> bool" where
  "isFinite (Finite q) = True"
| "isFinite n = False"

definition Number_of :: "(jsstring \<Rightarrow> jsnum) \<Rightarrow> jsstring option \<Rightarrow> jsnum" where
  "Number_of Number arg = (case arg of None \<Rightarrow> NaN | Some s \<Rightarrow> Number s)"

record light_point =
  time :: jsnum
  flux :: jsnum

datatype js_error = TypeError

text \<open>An array read \<open>xs[i]\<close>: \<open>undefined\<close>, here \<open>None\<close>, past the end.\<close>

definition index :: "'a list \<Rightarrow> nat \<Rightarrow> 'a option" where
  "index xs i = (if i < length xs then Some (xs ! i) else None)"

text \<open>
  \<^verbatim>\<open>
  function parseCsvLightCurve(text: string): Array<{ time: number; flux: number }> {
    const lines = text.split(/\r?\n/).filter((l) => l.trim().length > 0);
    if (lines.length === 0) return [];
    const maybeHeader = lines[0].toLowerCase();
    const startIndex =
      maybeHeader.includes("time") && maybeHeader.includes("flux") ? 1 : 0;
    const out: Array<{ time: number; flux: number }> = [];
    for (let i = startIndex; i < lines.length; i++) {
      const parts = lines[i].split(/,|\t|\s+/).filter(Boolean);
      if (parts.length < 2) continue;
      const time = Number(parts[0]);
      const flux = Number(parts[1]);
      if (Number.isFinite(time) && Number.isFinite(flux))
        out.push({ time, flux });
    }
    return out;
  }
  \<close>
  A method call on \<open>undefined\<close> (\<open>lines[0].toLowerCase()\<close>, \<open>lines[i].split(...)\<close>) would
  throw a \<open>TypeError\<close>; the model has that branch, and the result is an error or the list.
  \<open>parse_line\<close> is the body of the loop for one line: the record it pushes, if any.
\<close>

definition nonblank_lines :: "jsstring \<Rightarrow> jsstring list" where
  "nonblank_lines text = filter (\<lambda>l. length (trim l) > 0) (split_lines text)"

definition is_header :: "(jsstring \<Rightarrow> jsstring) \<Rightarrow> jsstring \<Rightarrow> bool" where
  "is_header lower line =
     (let maybeHeader = lower line
      in str_includes maybeHeader (lit ''time'') \<and> str_includes maybeHeader (lit ''flux''))"

definition parse_line :: "(jsstring \<Rightarrow> jsnum) \<Rightarrow> jsstring \<Rightarrow> light_point option" where
  "parse_line Number line =
     (let parts = filter (\<lambda>p. p \<noteq> []) (split_fields line)
      in if length parts < 2 then None
         else (let t = Number_of Number (index parts 0);
                   f = Number_of Number (index parts 1)
               in if isFinite t \<and> isFinite f then Some \<lparr> time = t, flux = f \<rparr> else None))"

function parse_rows :: "(jsstring \<Rightarrow> jsnum) \<Rightarrow> jsstring list \<Rightarrow> nat \<Rightarrow> light_point list \<Rightarrow> js_error + light_point list" where
  "parse_rows Number lines i out =
     (if i < length lines then
        (case index lines i of
           None \<Rightarrow> Inl TypeError
         | Some line \<Rightarrow>
             (case parse_line Number line of
                None \<Rightarrow> parse_rows Number lines (i + 1) out
              | Some point \<Rightarrow> parse_rows Number lines (i + 1) (out @ [point])))
      else Inr out)"
  by pat_completeness auto
termination
  by (relation "measure (\<lambda>(Number, lines, i, out). length lines - i)") auto

declare parse_rows.simps [simp del]

definition parseCsvLightCurve :: "(jsstring \<Rightarrow> jsstring) \<Rightarrow> (jsstring \<Rightarrow> jsnum) \<Rightarrow> jsstring \<Rightarrow> js_error + light_point list" where
  "parseCsvLightCurve lower Number text =
     (let lines = nonblank_lines text
      in if length lines = 0 then Inr []
         else (case index lines 0 of
                 None \<Rightarrow> Inl TypeError
               | Some first \<Rightarrow>
                   (let startIndex = (if is_header lower first then 1 else 0)
                    in parse_rows Number lines startIndex [])))"

text \<open>
  The runtime functions on the inputs of the examples: \<open>toLowerCase\<close> on ASCII text, and
  \<open>Number\<close> on a string of decimal digits (on a word of letters it is \<open>NaN\<close>).
\<close>

definition ascii_lower :: "jsstring \<Rightarrow> jsstring" where
  "ascii_lower s = map (\<lambda>c. if 65 \<le> c \<and> c \<le> 90 then c + 32 else c) s"

definition digits_Number :: "jsstring \<Rightarrow> jsnum" where
  "digits_Number s =
     (if s \<noteq> [] \<and> list_all (\<lambda>c. 48 \<le> c \<and> c \<le> 57) s
      then Finite (of_nat (foldl (\<lambda>n c. 10 * n + (c - 48)) 0 s))
      else NaN)"

section \<open>Theorems\<close>

subsection \<open>Text direction\<close>

text \<open>
  C4. For every language-code string, \<open>getTextDirection\<close> returns \<open>rtl\<close> exactly when the
  language code is one of \<open>ar\<close>, \<open>he\<close>, \<open>fa\<close>, \<open>ur\<close>, and \<open>ltr\<close> otherwise; it returns
  \<open>rtl\<close> for \<open>ar\<close> and \<open>ltr\<close> for \<open>en\<close> and \<open>es\<close>.
\<close>

theorem getTextDirection_rtl_iff:
  "(getTextDirection loc = ''rtl'') = (loc \<in> {''ar'', ''he'', ''fa'', ''ur''})
   \<and> (getTextDirection loc = ''ltr'') = (loc \<notin> {''ar'', ''he'', ''fa'', ''ur''})
   \<and> getTextDirection ''ar'' = ''rtl''
   \<and> getTextDirection ''en'' = ''ltr''
   \<and> getTextDirection ''es'' = ''ltr''"
  by (auto simp: getTextDirection_def isRTL_def rtlLocales_def)

subsection \<open>The translation report\<close>

lemma falsy_cases:
  "(\<not> truthy v) = (v \<in> {Undefined, J JNull, J (JBool False), J (JNum 0), J (JStr [])})"
proof (cases v)
  case (J j)
  then show ?thesis by (cases j) auto
qed auto

text \<open>
  C1, as the code has it. A dotted leaf key of the English object is listed in
  \<open>missing_keys\<close> exactly when \<open>getValueByPath\<close> on the other object yields a falsy
  value: no value (\<open>undefined\<close>), \<open>null\<close>, \<open>false\<close>, \<open>0\<close> or the empty string. The
  filter is \<open>!getValueByPath(...)\<close>, so a key that is present with an empty string is
  listed as well.
\<close>

theorem missing_keys_iff_falsy:
  "(key \<in> set (missing_keys rt enData locData)) =
     (key \<in> set (deepKeys enData []) \<and>
      getValueByPath rt (JObj locData) key
        \<in> {Undefined, J JNull, J (JBool False), J (JNum 0), J (JStr [])})"
  unfolding missing_keys_def set_filter falsy_cases by simp

text \<open>
  C1 as stated fails: with \<open>en = {"a": "Hello", "b": "Bye"}\<close> and the other object
  \<open>{"a": "", "b": false}\<close>, the key \<open>a\<close> is reported missing although the lookup
  yields a value, the empty string.
\<close>

theorem missing_keys_counterexample:
  "''a'' \<in> set (missing_keys no_inherited
       [(''a'', JStr ''Hello''), (''b'', JStr ''Bye'')]
       [(''a'', JStr ''''), (''b'', JBool False)])
   \<and> getValueByPath no_inherited (JObj [(''a'', JStr ''''), (''b'', JBool False)]) ''a''
       = J (JStr '''')
   \<and> J (JStr '''') \<noteq> Undefined"
  by (simp add: missing_keys_def getValueByPath_def fullKey_def)

lemma round_even_bounds:
  "of_int (round_even q) \<le> q + 1 / 2" "q - 1 / 2 \<le> of_int (round_even q)"
  unfolding round_even_def Let_def by (auto; linarith)+

lemma round_even_le: "q \<le> of_int n \<Longrightarrow> round_even q \<le> n"
proof -
  assume a: "q \<le> of_int n"
  have f: "\<lfloor>q\<rfloor> \<le> n" using a by (simp add: floor_le_iff) 
  show ?thesis
  proof (cases "\<lfloor>q\<rfloor> = n")
    case True
    then have "q = of_int n" using a of_int_floor_le [of q] by linarith
    then show ?thesis by (simp add: round_even_def)
  next
    case False
    with f have "\<lfloor>q\<rfloor> + 1 \<le> n" by simp
    then show ?thesis unfolding round_even_def Let_def by auto
  qed
qed

lemma round_even_ge: "of_int n \<le> q \<Longrightarrow> n \<le> round_even q"
proof -
  assume "of_int n \<le> q"
  then have "n \<le> \<lfloor>q\<rfloor>" by (simp add: le_floor_iff)
  then show ?thesis unfolding round_even_def Let_def by auto
qed

lemma round_even_mono: "q \<le> q' \<Longrightarrow> round_even q \<le> round_even q'"
proof -
  assume a: "q \<le> q'"
  have f: "\<lfloor>q\<rfloor> \<le> \<lfloor>q'\<rfloor>" using a by (rule floor_mono)
  show ?thesis
  proof (cases "\<lfloor>q\<rfloor> = \<lfloor>q'\<rfloor>")
    case True
    then show ?thesis using a unfolding round_even_def Let_def by auto
  next
    case False
    with f have "\<lfloor>q\<rfloor> + 1 \<le> \<lfloor>q'\<rfloor>" by simp
    moreover have "round_even q \<le> \<lfloor>q\<rfloor> + 1" unfolding round_even_def Let_def by auto
    moreover have "\<lfloor>q'\<rfloor> \<le> round_even q'" unfolding round_even_def Let_def by auto
    ultimately show ?thesis by linarith
  qed
qed

lemma exponent_bounds:
  assumes "0 < x"
  shows "2 powr of_int \<lfloor>log 2 x\<rfloor> \<le> x" and "x < 2 powr (of_int \<lfloor>log 2 x\<rfloor> + 1)"
proof -
  have "of_int \<lfloor>log 2 x\<rfloor> \<le> log 2 x" by simp
  then show "2 powr of_int \<lfloor>log 2 x\<rfloor> \<le> x" using assms by (simp add: powr_le_iff)
  have "log 2 x < of_int \<lfloor>log 2 x\<rfloor> + 1" by linarith
  then show "x < 2 powr (of_int \<lfloor>log 2 x\<rfloor> + 1)" using assms by (simp add: less_powr_iff)
qed

lemma fl_pos_eq:
  assumes "0 < x"
  shows "fl x = of_int (round_even (x / 2 powr (of_int \<lfloor>log 2 x\<rfloor> - 52)))
                 * 2 powr (of_int \<lfloor>log 2 x\<rfloor> - 52)"
  using assms by (simp add: fl_def Let_def)

lemma fl_eval:
  assumes "0 < x" and "2 ^ 52 \<le> x * 2 ^ n" and "x * 2 ^ n < 2 ^ 53"
  shows "fl x = of_int (round_even (x * 2 ^ n)) / 2 ^ n"
proof -
  have "log 2 (x * 2 ^ n) = log 2 x + of_nat n"
    using assms(1) by (simp add: log_mult log_nat_power)
  moreover have "52 \<le> log 2 (x * 2 ^ n)"
    using assms by (simp add: le_log_iff powr_realpow [symmetric] del: powr_realpow) 
  moreover have "log 2 (x * 2 ^ n) < 53"
    using assms by (simp add: log_less_iff powr_realpow [symmetric] del: powr_realpow)
  ultimately have "\<lfloor>log 2 x\<rfloor> = 52 - int n"
    by (simp add: floor_eq_iff) 
  then have e: "of_int \<lfloor>log 2 x\<rfloor> - 52 = - real n" by simp
  have p: "2 powr (- real n) = 1 / 2 ^ n"
    by (simp add: powr_minus powr_realpow divide_inverse)
  show ?thesis
    unfolding fl_pos_eq [OF assms(1)] e p by simp
qed


lemma fl_nonneg: "0 \<le> x \<Longrightarrow> 0 \<le> fl x"
proof (cases "x = 0")
  case True
  then show ?thesis by (simp add: fl_def)
next
  case False
  assume "0 \<le> x"
  with False have x: "0 < x" by simp
  let ?u = "(2::real) powr (of_int \<lfloor>log 2 x\<rfloor> - 52)"
  have "0 \<le> x / ?u" using x by simp
  then have "(0::int) \<le> round_even (x / ?u)" by (intro round_even_ge) simp
  then show ?thesis unfolding fl_pos_eq [OF x] by simp
qed

lemma fl_error:
  assumes "0 < x"
  shows "\<bar>fl x - x\<bar> \<le> x / 2 ^ 53"
proof -
  let ?e = "\<lfloor>log 2 x\<rfloor>"
  let ?u = "(2::real) powr (of_int ?e - 52)"
  let ?q = "x / ?u"
  have u: "0 < ?u" by simp
  have xq: "x = ?q * ?u" by simp
  have "\<bar>of_int (round_even ?q) - ?q\<bar> \<le> 1 / 2"
    using round_even_bounds [of ?q] by linarith
  then have "\<bar>of_int (round_even ?q) - ?q\<bar> * ?u \<le> 1 / 2 * ?u"
    using u by (intro mult_right_mono) simp_all
  moreover have "\<bar>fl x - x\<bar> = \<bar>of_int (round_even ?q) - ?q\<bar> * ?u"
  proof -
    have "fl x - x = (of_int (round_even ?q) - ?q) * ?u"
      unfolding fl_pos_eq [OF assms] by (simp add: algebra_simps)
    then show ?thesis using u by (simp add: abs_mult)
  qed
  moreover have "1 / 2 * ?u \<le> x / 2 ^ 53"
  proof -
    have "?u = 2 powr of_int ?e / 2 ^ 52"
      by (simp add: powr_diff powr_realpow [symmetric] del: powr_realpow)
    moreover have "2 powr of_int ?e \<le> x" by (rule exponent_bounds(1) [OF assms])
    ultimately show ?thesis by (simp add: field_simps)
  qed
  ultimately show ?thesis by linarith
qed

lemma ulp_scaled:
  fixes e :: int
  shows "2 powr (of_int e - 52) * 2 ^ 53 = (2::real) powr (of_int e + 1)"
    and "2 powr (of_int e - 52) * 2 ^ 52 = (2::real) powr of_int e"
proof -
  have "(2::real) powr (of_int e - 52) * 2 powr 53 = 2 powr (of_int e - 52 + 53)"
    by (simp only: powr_add)
  moreover have "of_int e - 52 + 53 = of_int e + (1::real)" by simp
  moreover have "(2::real) powr 53 = 2 ^ 53" by simp
  ultimately show "2 powr (of_int e - 52) * 2 ^ 53 = (2::real) powr (of_int e + 1)"
    by (simp only:)
  have "(2::real) powr (of_int e - 52) * 2 powr 52 = 2 powr (of_int e - 52 + 52)"
    by (simp only: powr_add)
  moreover have "of_int e - 52 + 52 = (of_int e :: real)" by simp
  moreover have "(2::real) powr 52 = 2 ^ 52" by simp
  ultimately show "2 powr (of_int e - 52) * 2 ^ 52 = (2::real) powr of_int e"
    by (simp only:)
qed

lemma fl_upper:
  assumes "0 < x"
  shows "fl x \<le> 2 powr (of_int \<lfloor>log 2 x\<rfloor> + 1)"
proof -
  define u :: real where "u = 2 powr (of_int \<lfloor>log 2 x\<rfloor> - 52)"
  have u: "0 < u" by (simp add: u_def)
  have u53: "u * 2 ^ 53 = 2 powr (of_int \<lfloor>log 2 x\<rfloor> + 1)"
    unfolding u_def by (rule ulp_scaled(1))
  have "x < u * 2 ^ 53" using exponent_bounds(2) [OF assms] u53 by (simp only:)
  then have "x / u \<le> 2 ^ 53" using u by (simp add: field_simps)
  then have "x / u \<le> of_int (2 ^ 53)" by simp
  then have "round_even (x / u) \<le> 2 ^ 53" by (rule round_even_le)
  then have "(of_int (round_even (x / u)) :: real) \<le> of_int (2 ^ 53)"
    by (simp only: of_int_le_iff)
  then have "of_int (round_even (x / u)) * u \<le> of_int (2 ^ 53) * u"
    using u by (intro mult_right_mono) simp_all
  also have "of_int (2 ^ 53) * u = u * 2 ^ 53" by simp
  finally show ?thesis
    unfolding fl_pos_eq [OF assms] u_def [symmetric] u53 .
qed

lemma fl_lower:
  assumes "0 < x"
  shows "2 powr of_int \<lfloor>log 2 x\<rfloor> \<le> fl x"
proof -
  define u :: real where "u = 2 powr (of_int \<lfloor>log 2 x\<rfloor> - 52)"
  have u: "0 < u" by (simp add: u_def)
  have u52: "u * 2 ^ 52 = 2 powr of_int \<lfloor>log 2 x\<rfloor>"
    unfolding u_def by (rule ulp_scaled(2))
  have "u * 2 ^ 52 \<le> x" using exponent_bounds(1) [OF assms] u52 by (simp only:)
  then have "2 ^ 52 \<le> x / u" using u by (simp add: field_simps)
  then have "of_int (2 ^ 52) \<le> x / u" by simp
  then have "2 ^ 52 \<le> round_even (x / u)" by (rule round_even_ge)
  then have "(of_int (2 ^ 52) :: real) \<le> of_int (round_even (x / u))"
    by (simp only: of_int_le_iff)
  then have "of_int (2 ^ 52) * u \<le> of_int (round_even (x / u)) * u"
    using u by (intro mult_right_mono) simp_all
  moreover have "of_int (2 ^ 52) * u = u * 2 ^ 52" by simp
  ultimately have "u * 2 ^ 52 \<le> of_int (round_even (x / u)) * u" by (simp only:)
  then show ?thesis
    unfolding fl_pos_eq [OF assms] u_def [symmetric] u52 .
qed

lemma fl_mono:
  assumes "0 \<le> x" and "x \<le> y"
  shows "fl x \<le> fl y"
proof (cases "x = 0")
  case True
  then show ?thesis using fl_nonneg [of y] assms by (simp add: fl_def)
next
  case False
  with assms have x: "0 < x" and y: "0 < y" by simp_all
  have le: "\<lfloor>log 2 x\<rfloor> \<le> \<lfloor>log 2 y\<rfloor>"
    using x y assms(2) by (intro floor_mono) simp
  show ?thesis
  proof (cases "\<lfloor>log 2 x\<rfloor> = \<lfloor>log 2 y\<rfloor>")
    case True
    let ?u = "(2::real) powr (of_int \<lfloor>log 2 y\<rfloor> - 52)"
    have "x / ?u \<le> y / ?u" using assms(2) by (simp add: divide_right_mono)
    then have "round_even (x / ?u) \<le> round_even (y / ?u)" by (rule round_even_mono)
    then have "(of_int (round_even (x / ?u)) :: real) \<le> of_int (round_even (y / ?u))"
      by (simp only: of_int_le_iff)
    then have "of_int (round_even (x / ?u)) * ?u \<le> of_int (round_even (y / ?u)) * ?u"
      by (intro mult_right_mono) simp_all
    then show ?thesis unfolding fl_pos_eq [OF x] fl_pos_eq [OF y] True .
  next
    case False
    with le have "\<lfloor>log 2 x\<rfloor> + 1 \<le> \<lfloor>log 2 y\<rfloor>" by simp
    then have "(of_int \<lfloor>log 2 x\<rfloor> :: real) + 1 \<le> of_int \<lfloor>log 2 y\<rfloor>"
      by (metis of_int_1 of_int_add of_int_le_iff)
    then have "(2::real) powr (of_int \<lfloor>log 2 x\<rfloor> + 1) \<le> 2 powr of_int \<lfloor>log 2 y\<rfloor>"
      by simp
    with fl_upper [OF x] fl_lower [OF y] show ?thesis by linarith
  qed
qed

lemma fl_1: "fl 1 = 1"
  by (subst fl_eval [where n = 52]) (simp_all add: round_even_def)

lemma fl_100: "fl 100 = 100"
  by (subst fl_eval [where n = 46]) (simp_all add: round_even_def)

lemma fl_10000: "fl 10000 = 10000"
  by (subst fl_eval [where n = 39]) (simp_all add: round_even_def)


lemma fl_between:
  assumes "0 \<le> x"
  shows "x * (1 - 1 / 2 ^ 53) \<le> fl x" and "fl x \<le> x * (1 + 1 / 2 ^ 53)"
proof -
  have "x * (1 - 1 / 2 ^ 53) \<le> fl x \<and> fl x \<le> x * (1 + 1 / 2 ^ 53)"
  proof (cases "x = 0")
    case True
    then show ?thesis by (simp add: fl_def)
  next
    case False
    with assms have "0 < x" by simp
    from fl_error [OF this] have "x - x / 2 ^ 53 \<le> fl x" and "fl x \<le> x + x / 2 ^ 53"
      by linarith+
    moreover have "x * (1 - 1 / 2 ^ 53) = x - x / 2 ^ 53" by (simp add: right_diff_distrib)
    moreover have "x * (1 + 1 / 2 ^ 53) = x + x / 2 ^ 53" by (simp add: distrib_left)
    ultimately show ?thesis by (simp only:)
  qed
  then show "x * (1 - 1 / 2 ^ 53) \<le> fl x" and "fl x \<le> x * (1 + 1 / 2 ^ 53)" by simp_all
qed

lemma scaled_near:
  fixes a :: real
  assumes "0 \<le> a"
  shows "\<bar>fl (fl (fl a * 100) * 100) - a * 10000\<bar> \<le> a * 10000 * (4 / 2 ^ 53)"
proof -
  define u :: real where "u = 1 / 2 ^ 53"
  have u: "0 \<le> u" "u \<le> 1" by (simp_all add: u_def)
  define q where "q = fl a"
  define c where "c = fl (q * 100)"
  define y where "y = fl (c * 100)"
  have q0: "0 \<le> q" unfolding q_def by (rule fl_nonneg [OF assms])
  then have c0: "0 \<le> c" unfolding c_def by (intro fl_nonneg) simp
  have q: "a * (1 - u) \<le> q" "q \<le> a * (1 + u)"
    unfolding q_def u_def using fl_between [OF assms] by simp_all
  have c: "q * 100 * (1 - u) \<le> c" "c \<le> q * 100 * (1 + u)"
    unfolding c_def u_def using fl_between [of "q * 100"] q0 by simp_all
  have y: "c * 100 * (1 - u) \<le> y" "y \<le> c * 100 * (1 + u)"
    unfolding y_def u_def using fl_between [of "c * 100"] c0 by simp_all
  have up: "y \<le> a * 10000 * ((1 + u) * (1 + u) * (1 + u))"
  proof -
    have "c \<le> a * (1 + u) * 100 * (1 + u)"
      using c(2) q(2) u by (meson add_nonneg_nonneg mult_right_mono order_trans zero_le_numeral zero_le_one mult_nonneg_nonneg)
    then have "c * 100 * (1 + u) \<le> a * (1 + u) * 100 * (1 + u) * 100 * (1 + u)"
      using u by (intro mult_right_mono) simp_all
    with y(2) show ?thesis by (simp add: algebra_simps)
  qed
  have lo: "a * 10000 * ((1 - u) * (1 - u) * (1 - u)) \<le> y"
  proof -
    have "a * (1 - u) * 100 * (1 - u) \<le> q * 100 * (1 - u)"
      using q(1) u by (intro mult_right_mono) simp_all
    with c(1) have "a * (1 - u) * 100 * (1 - u) \<le> c" by linarith
    then have "a * (1 - u) * 100 * (1 - u) * 100 * (1 - u) \<le> c * 100 * (1 - u)"
      using u by (intro mult_right_mono) simp_all
    with y(1) show ?thesis by (simp add: algebra_simps)
  qed
  have cube_up: "(1 + u) * (1 + u) * (1 + u) \<le> 1 + 4 * u" by (simp add: u_def)
  have cube_lo: "1 - 4 * u \<le> (1 - u) * (1 - u) * (1 - u)" by (simp add: u_def)
  have a0: "0 \<le> a * 10000" using assms by simp
  have "y \<le> a * 10000 * (1 + 4 * u)"
    using up mult_left_mono [OF cube_up a0] by linarith
  moreover have "a * 10000 * (1 - 4 * u) \<le> y"
    using lo mult_left_mono [OF cube_lo a0] by linarith
  ultimately have "\<bar>y - a * 10000\<bar> \<le> a * 10000 * (4 * u)"
    by (simp add: abs_le_iff algebra_simps)
  then show ?thesis by (simp add: y_def c_def q_def u_def)
qed


lemma coverage_nearest:
  assumes "0 < enCount" and "locCount < 2 ^ 32" and "enCount < 2 ^ 32"
  shows "\<exists>k. coverage locCount enCount = Some (fl (of_int k / 100))
     \<and> \<bar>of_int k - real locCount / real enCount * 100 * 100\<bar> \<le> 1 / 2
     \<and> 0 \<le> fl (of_int k / 100)
     \<and> (locCount \<le> enCount \<longrightarrow> fl (of_int k / 100) \<le> 100)"
proof -
  define a where "a = real locCount / real enCount"
  define y where "y = fl (fl (fl a * 100) * 100)"
  define k where "k = \<lfloor>y + 1 / 2\<rfloor>"
  define X where "X = a * 10000"
  define d where "d = X * (4 / 2 ^ 53)"
  have E: "0 < real enCount" using assms(1) by simp
  have a0: "0 \<le> a" by (simp add: a_def)
  have cov: "coverage locCount enCount = Some (fl (of_int k / 100))"
    using assms(1)
    by (simp add: coverage_def fdiv_def fmul_def Math_round_def Let_def k_def y_def a_def)
  have y0: "0 \<le> y"
    unfolding y_def by (intro fl_nonneg mult_nonneg_nonneg a0) simp_all
  have k0: "0 \<le> k" unfolding k_def using y0 by (simp add: zero_le_floor)
  have nonneg: "0 \<le> fl (of_int k / 100)" using k0 by (intro fl_nonneg) simp
  have near: "\<bar>y - X\<bar> \<le> d"
    unfolding y_def X_def d_def by (rule scaled_near [OF a0])
  have XE: "X * real enCount = 10000 * real locCount"
    using E by (simp add: X_def a_def)
  have dE: "2 * real enCount * d < 1"
  proof -
    have "2 * real enCount * d = 8 * (X * real enCount) / 2 ^ 53" by (simp add: d_def)
    also have "\<dots> = 80000 * real locCount / 2 ^ 53" by (simp add: XE)
    also have "\<dots> < 1"
    proof -
      have "real locCount < 2 ^ 32" using assms(2) by (metis of_nat_less_iff of_nat_numeral of_nat_power)
      then show ?thesis by simp
    qed
    finally show ?thesis .
  qed
  have kle: "of_int k \<le> y + 1 / 2" unfolding k_def by (rule of_int_floor_le)
  have klt: "y + 1 / 2 < of_int k + 1" unfolding k_def by linarith
  define N where "N = 2 * int enCount * k - 20000 * int locCount"
  have N: "real_of_int N = 2 * real enCount * (of_int k - X)"
    by (simp add: N_def algebra_simps XE)
  have up: "of_int k - X \<le> d + 1 / 2" using kle near by linarith
  have lo: "X - of_int k < d + 1 / 2" using klt near by linarith
  have "real_of_int N \<le> 2 * real enCount * (d + 1 / 2)"
    unfolding N using up E by (intro mult_left_mono) simp_all
  also have "\<dots> = 2 * real enCount * d + real enCount" by (simp add: algebra_simps)
  also have "\<dots> < 1 + real enCount" using dE by simp
  finally have "real_of_int N < real_of_int (1 + int enCount)" by simp
  then have N1: "N \<le> int enCount" by linarith
  have "- real_of_int N = 2 * real enCount * (X - of_int k)" by (simp add: N algebra_simps)
  also have "\<dots> < 2 * real enCount * (d + 1 / 2)"
    using lo E by (intro mult_strict_left_mono) simp_all
  also have "\<dots> = 2 * real enCount * d + real enCount" by (simp add: algebra_simps)
  also have "\<dots> < 1 + real enCount" using dE by simp
  finally have "real_of_int (- N) < real_of_int (1 + int enCount)" by simp
  then have N2: "- N \<le> int enCount" by linarith
  have "\<bar>real_of_int N\<bar> \<le> real enCount" using N1 N2 by linarith
  then have "2 * real enCount * \<bar>of_int k - X\<bar> \<le> real enCount"
    using E by (simp add: N abs_mult)
  then have close: "\<bar>of_int k - X\<bar> \<le> 1 / 2" using E by simp
  have upper: "fl (of_int k / 100) \<le> 100" if "locCount \<le> enCount"
  proof -
    have "a \<le> 1" using that E by (simp add: a_def)
    then have "fl a \<le> 1" using fl_mono [OF a0] fl_1 by metis
    then have "fl a * 100 \<le> 100" by simp
    moreover have "0 \<le> fl a * 100" using fl_nonneg [OF a0] by simp
    ultimately have "fl (fl a * 100) \<le> 100" using fl_mono fl_100 by metis
    then have "fl (fl a * 100) * 100 \<le> 10000" by simp
    moreover have "0 \<le> fl (fl a * 100) * 100"
      by (intro mult_nonneg_nonneg fl_nonneg a0) simp_all
    ultimately have "y \<le> 10000" unfolding y_def using fl_mono fl_10000 by metis
    then have "y + 1 / 2 < of_int 10001" by simp
    then have "k < 10001" unfolding k_def by (simp only: floor_less_iff)
    then have "real_of_int k / 100 \<le> 100" by simp
    moreover have "0 \<le> real_of_int k / 100" using k0 by simp
    ultimately show ?thesis using fl_mono fl_100 by metis
  qed
  have Xeq: "X = real locCount / real enCount * 100 * 100" by (simp add: X_def a_def)
  show ?thesis
    using cov close nonneg upper unfolding Xeq
    by (intro exI [of _ k]) blast
qed

lemma fl_200: "fl 200 = 200"
  by (subst fl_eval [where n = 45]) (simp_all add: round_even_def)

lemma fl_20000: "fl 20000 = 20000"
  by (subst fl_eval [where n = 38]) (simp_all add: round_even_def)

lemma fl_2: "fl 2 = 2"
  by (subst fl_eval [where n = 51]) (simp_all add: round_even_def)

text \<open>
  C2, as the code has it. The coverage percentage is
  \<open>Math.round(L / E * 100 * 100) / 100\<close> in double arithmetic, where \<open>L\<close> and \<open>E\<close> are the
  numbers of leaf keys of the other object and of the English one (lengths of arrays, so
  below \<open>2 ^ 32\<close>). When the English object has at least one leaf key, it is the double
  nearest to \<open>k / 100\<close> for an integer \<open>k\<close> that is at most one half away from
  \<open>L / E * 100 * 100\<close>: the percentage rounded to two decimal places, where a tie may go
  to either side. It is never negative, and it is at most 100 when the other object has no
  more leaf keys than the English one. Nothing caps the quotient, so an object with more
  leaf keys than the English one gets more than 100.
\<close>

theorem coverage_percentage_rounded:
  assumes "deepKeys enData [] \<noteq> []"
    and "length (deepKeys locData []) < 2 ^ 32"
    and "length (deepKeys enData []) < 2 ^ 32"
  shows "\<exists>k. coverage_percentage enData locData = Some (fl (of_int k / 100))
     \<and> \<bar>of_int k - real (length (deepKeys locData [])) / real (length (deepKeys enData []))
                    * 100 * 100\<bar> \<le> 1 / 2
     \<and> 0 \<le> fl (of_int k / 100)
     \<and> (length (deepKeys locData []) \<le> length (deepKeys enData [])
          \<longrightarrow> fl (of_int k / 100) \<le> 100)"
proof -
  have "0 < length (deepKeys enData [])" using assms(1) by simp
  then show ?thesis
    unfolding coverage_percentage_def using assms(2,3) by (rule coverage_nearest)
qed

theorem coverage_percentage_rounded_witness:
  "deepKeys [(''a'', JStr ''x''), (''b'', JStr ''y''), (''c'', JStr ''z'')] [] \<noteq> []
   \<and> length (deepKeys [(''a'', JStr ''u'')] []) < 2 ^ 32
   \<and> length (deepKeys [(''a'', JStr ''x''), (''b'', JStr ''y''), (''c'', JStr ''z'')] []) < 2 ^ 32
   \<and> coverage_percentage [(''a'', JStr ''x''), (''b'', JStr ''y''), (''c'', JStr ''z'')]
         [(''a'', JStr ''u'')] = Some (fl (3333 / 100))
   \<and> fl (3333 / 100) \<le> 100"
proof -
  let ?en = "[(''a'', JStr ''x''), (''b'', JStr ''y''), (''c'', JStr ''z'')]"
  let ?loc = "[(''a'', JStr ''u'')]"
  have h: "deepKeys ?en [] \<noteq> []" by (simp add: fullKey_def)
  have l1: "length (deepKeys ?loc []) < 2 ^ 32" and l2: "length (deepKeys ?en []) < 2 ^ 32"
    by (simp_all add: fullKey_def)
  from coverage_percentage_rounded [OF h l1 l2]
  obtain k where c: "coverage_percentage ?en ?loc = Some (fl (of_int k / 100))"
    and n: "\<bar>of_int k - real (length (deepKeys ?loc [])) / real (length (deepKeys ?en []))
                    * 100 * 100\<bar> \<le> 1 / 2"
    and u: "length (deepKeys ?loc []) \<le> length (deepKeys ?en [])
          \<longrightarrow> fl (of_int k / 100) \<le> 100"
    by blast
  have "\<bar>real_of_int k - 10000 / 3\<bar> \<le> 1 / 2" using n by (simp add: fullKey_def)
  then have "real_of_int k < real_of_int 3334" and "real_of_int 3332 < real_of_int k"
    by linarith+
  then have "k < 3334" and "3332 < k" by (simp_all only: of_int_less_iff)
  then have "k = 3333" by simp
  with c u h show ?thesis by (simp add: fullKey_def)
qed

text \<open>
  The doubles of the script at 23 of 160 keys: the product is just below 1437.5, so the
  percentage is the double of 14.37.
\<close>

lemma tie_q: "fl (23 / 160) = 5179139571476070 / 2 ^ 55"
  by (subst fl_eval [where n = 55]) (simp_all add: round_even_def Let_def floor_eq_iff)

lemma tie_c: "fl (5179139571476070 / 2 ^ 55 * 100) = 8092405580431359 / 2 ^ 49"
  by (subst fl_eval [where n = 49]) (simp_all add: round_even_def Let_def floor_eq_iff)

lemma tie_y: "fl (8092405580431359 / 2 ^ 49 * 100) = 6322191859711999 / 2 ^ 42"
  by (subst fl_eval [where n = 42]) (simp_all add: round_even_def Let_def floor_eq_iff)

lemma tie_k: "Math_round (6322191859711999 / 2 ^ 42 :: real) = 1437"
  by (simp add: Math_round_def floor_eq_iff)

lemma tie_p: "fl (1437 / 100) = 8089590830664253 / 2 ^ 49"
  by (subst fl_eval [where n = 49]) (simp_all add: round_even_def Let_def floor_eq_iff)

lemma coverage_at_tie: "coverage 23 160 = Some (fl (1437 / 100))"
  by (simp only: coverage_def fdiv_def fmul_def Let_def of_nat_numeral tie_q tie_c tie_y tie_k
      of_int_numeral) simp

text \<open>
  C2 as stated fails. With \<open>en = {"a": "x"}\<close> (not empty) and the other object
  \<open>{"a": "x", "b": "y"}\<close> the coverage percentage is 200. With \<open>en = {"a": {}}\<close>, which is
  not empty but has no leaf key, it is no number at all. And with 23 and 160 leaf keys the
  percentage is 14.375, which rounds to 14.38 with a half upwards, but the script's doubles
  give the double of 14.37.
\<close>

theorem coverage_percentage_counterexample:
  "[(''a'', JStr ''x'')] \<noteq> []
   \<and> coverage_percentage [(''a'', JStr ''x'')] [(''a'', JStr ''x''), (''b'', JStr ''y'')]
       = Some 200
   \<and> \<not> (200 :: real) \<le> 100
   \<and> [(''a'', JObj [])] \<noteq> []
   \<and> coverage_percentage [(''a'', JObj [])] [(''a'', JStr ''x''), (''b'', JStr ''y'')] = None
   \<and> coverage 23 160 = Some (fl (1437 / 100))
   \<and> Math_round (23 / 160 * 100 * 100 :: real) = 1438"
proof -
  have "coverage_percentage [(''a'', JStr ''x'')] [(''a'', JStr ''x''), (''b'', JStr ''y'')]
       = Some 200"
    by (simp add: coverage_percentage_def coverage_def fdiv_def fmul_def Math_round_def
        fullKey_def fl_2 fl_200 fl_20000)
  moreover have "coverage_percentage [(''a'', JObj [])] [(''a'', JStr ''x''), (''b'', JStr ''y'')]
       = None"
    by (simp add: coverage_percentage_def coverage_def fullKey_def)
  moreover have "Math_round (23 / 160 * 100 * 100 :: real) = 1438"
    by (simp add: Math_round_def floor_eq_iff)
  ultimately show ?thesis using coverage_at_tie by simp
qed

subsection \<open>Merging and the existing translations\<close>

lemma update_absent: "key \<notin> fst ` set al \<Longrightarrow> AList.update key v al = al @ [(key, v)]"
  by (induction al) auto

lemma set_prop_plain:
  "key \<noteq> ''__proto__'' \<Longrightarrow> set_prop (own, pr) key v = (AList.update key v own, pr)"
  by (simp add: set_prop_def update_absent)

lemma get_prop_plain:
  "key \<noteq> ''__proto__'' \<Longrightarrow> get_prop (own, StandardProto) key = map_of own key"
  by (simp add: get_prop_def split: option.splits)

lemma merge_loop_step:
  "key \<noteq> ''__proto__'' \<Longrightarrow>
   merge_loop ((key, v) # rest) (own, pr) =
     merge_loop rest (AList.update key (merged_entry v (get_prop (own, pr) key)) own, pr)"
  by (simp add: merged_entry_def set_prop_plain split: json.splits option.splits prod.splits)

lemma merge_loop_other:
  "k \<notin> fst ` set ex \<Longrightarrow> ''__proto__'' \<notin> fst ` set ex \<Longrightarrow>
     snd (merge_loop ex (own, pr)) = pr \<and> map_of (fst (merge_loop ex (own, pr))) k = map_of own k"
proof (induction ex arbitrary: own)
  case Nil
  then show ?case by simp
next
  case (Cons e ex)
  obtain key w where e: "e = (key, w)" by (cases e)
  have np: "key \<noteq> ''__proto__''" and nk: "key \<noteq> k" using Cons.prems e by auto
  have "k \<notin> fst ` set ex" "''__proto__'' \<notin> fst ` set ex" using Cons.prems by auto
  from Cons.IH [OF this] show ?case
    unfolding e merge_loop_step [OF np] using nk by (simp add: update_conv')
qed

lemma merge_loop_own:
  "distinct (map fst ex) \<Longrightarrow> ''__proto__'' \<notin> fst ` set ex \<Longrightarrow> map_of ex k = Some v \<Longrightarrow>
     map_of (fst (merge_loop ex (own, StandardProto))) k
       = Some (merged_entry v (map_of own k))"
proof (induction ex arbitrary: own)
  case Nil
  then show ?case by simp
next
  case (Cons e ex)
  obtain key w where e: "e = (key, w)" by (cases e)
  have np: "key \<noteq> ''__proto__''" and np': "''__proto__'' \<notin> fst ` set ex"
    using Cons.prems e by auto
  show ?case
  proof (cases "key = k")
    case True
    with Cons.prems e have vw: "w = v" and notin: "k \<notin> fst ` set ex" by auto
    show ?thesis
      unfolding e merge_loop_step [OF np] using True vw np
      by (simp add: merge_loop_other [OF notin np'] update_conv' get_prop_plain)
  next
    case False
    with Cons.prems e have d: "distinct (map fst ex)" and m: "map_of ex k = Some v" by auto
    show ?thesis
      unfolding e merge_loop_step [OF np] using False
      by (simp add: Cons.IH [OF d np' m] update_conv')
  qed
qed

lemma wf_entries_distinct: "wf_entries kvs \<Longrightarrow> distinct (map fst kvs)"
  by (induction kvs rule: wf_entries.induct) auto

lemma wf_entries_no_proto: "wf_entries kvs \<Longrightarrow> ''__proto__'' \<notin> fst ` set kvs"
  by (induction kvs rule: wf_entries.induct) auto

lemma wf_entries_sub:
  "wf_entries kvs \<Longrightarrow> map_of kvs k = Some (JObj sub) \<Longrightarrow> wf_entries sub"
  by (induction kvs rule: wf_entries.induct) (auto split: if_splits)

lemma map_of_of_entries: "map_of (of_entries kvs) k = map_option of_json (map_of kvs k)"
  by (induction kvs) auto

lemma merge_loop_keeps:
  "wf_entries existing \<Longrightarrow>
   holds_at (VObj (of_entries existing) StandardProto) ks = Some (VStr s) \<Longrightarrow>
     holds_at (case merge_loop existing (own, StandardProto) of (o', pr) \<Rightarrow> VObj o' pr) ks
       = Some (VStr s)"
proof (induction ks arbitrary: existing own)
  case Nil
  then show ?case by simp
next
  case (Cons k ks)
  have np: "''__proto__'' \<notin> fst ` set existing" by (rule wf_entries_no_proto [OF Cons.prems(1)])
  have ex: "\<exists>v. map_of existing k = Some v \<and> holds_at (of_json v) ks = Some (VStr s)"
  proof (cases "map_of existing k")
    case None
    then have "get_prop (of_entries existing, StandardProto) k
        = (if k = ''__proto__'' then Some ObjectPrototype else None)"
      by (simp add: get_prop_def map_of_of_entries)
    with Cons.prems(2) show ?thesis
      by (cases ks) (auto split: if_splits)
  next
    case (Some v)
    then have "get_prop (of_entries existing, StandardProto) k = Some (of_json v)"
      by (simp add: get_prop_def map_of_of_entries)
    with Cons.prems(2) Some show ?thesis by simp
  qed
  then obtain v where v: "map_of existing k = Some v"
    and hv: "holds_at (of_json v) ks = Some (VStr s)" by blast
  have "(k, v) \<in> set existing" using v by (rule map_of_SomeD)
  then have kin: "k \<in> fst ` set existing" by force
  have kp: "k \<noteq> ''__proto__''"
  proof
    assume "k = ''__proto__''"
    with kin np show False by (simp only:)
  qed
  obtain o' pr where r: "merge_loop existing (own, StandardProto) = (o', pr)"
    by (cases "merge_loop existing (own, StandardProto)")
  obtain k0 where "k0 \<notin> fst ` set existing"
    using infinite_UNIV_listI ex_new_if_finite [of "fst ` set existing"] by auto
  from merge_loop_other [OF this np, of own StandardProto] r have pr: "pr = StandardProto" by simp
  have own: "map_of o' k = Some (merged_entry v (map_of own k))"
    using merge_loop_own [OF wf_entries_distinct [OF Cons.prems(1)] np v, of own] r by simp
  have "holds_at (merged_entry v (map_of own k)) ks = Some (VStr s)"
  proof (cases v)
    case (JObj sub)
    have wf: "wf_entries sub" using Cons.prems(1) v JObj by (auto dest: wf_entries_sub)
    have hs: "holds_at (VObj (of_entries sub) StandardProto) ks = Some (VStr s)"
      using hv JObj by simp
    show ?thesis
      using Cons.IH [OF wf hs] hv JObj
      by (auto simp: merged_entry_def split: option.splits)
  qed (use hv in \<open>simp_all add: merged_entry_def\<close>)
  then show ?case using own kp by (simp add: r pr get_prop_plain)
qed

text \<open>
  The merge keeps every existing string at its path when no key of the existing object
  is \<open>__proto__\<close>, whatever the translated object is.
\<close>

lemma mergeTranslations_keeps_plain_keys:
  assumes "wf_entries existing"
    and "holds_at (of_json (JObj existing)) path = Some (VStr s)"
  shows "holds_at (mergeTranslations existing translated) path = Some (VStr s)"
  unfolding mergeTranslations_def using assms by (simp add: merge_loop_keeps)

text \<open>
  C3. The merge step should keep every existing manual translation: at every path where
  the existing Arabic object holds a string, \<open>mergeTranslations existing translated\<close>
  should hold the same string. The code does not do so for the key \<open>__proto__\<close>. With
  the existing object \<open>{"__proto__": "s", "title": "T"}\<close> and the translated object
  \<open>{"title": "[AR: Title]"}\<close>, the existing object holds the string \<open>s\<close> at
  \<open>__proto__\<close>; the assignment \<open>result['__proto__'] = 's'\<close> calls the prototype setter,
  which does nothing with a string; the result is \<open>{"title": "T"}\<close>, and reading
  \<open>__proto__\<close> of it yields \<open>Object.prototype\<close>, not the string.
\<close>

theorem mergeTranslations_drops_proto_entry:
  "holds_at (of_json (JObj [(''__proto__'', JStr ''s''), (''title'', JStr ''T'')]))
       [''__proto__''] = Some (VStr ''s'')
   \<and> mergeTranslations [(''__proto__'', JStr ''s''), (''title'', JStr ''T'')]
         [(''title'', JStr ''[AR: Title]'')]
       = VObj [(''title'', VStr ''T'')] StandardProto
   \<and> holds_at (mergeTranslations [(''__proto__'', JStr ''s''), (''title'', JStr ''T'')]
         [(''title'', JStr ''[AR: Title]'')]) [''__proto__'']
       = Some ObjectPrototype
   \<and> holds_at (mergeTranslations [(''__proto__'', JStr ''s''), (''title'', JStr ''T'')]
         [(''title'', JStr ''[AR: Title]'')]) [''title'']
       = Some (VStr ''T'')"
  by (simp add: mergeTranslations_def get_prop_def set_prop_def set_prototype_def)

subsection \<open>Failed requests on the Quantum and Adversarial pages\<close>

lemma simulate_progress_results [simp]: "results (simulate_progress n s) = results s"
proof -
  have "results (foldl (\<lambda>s i. s\<lparr>progress := of_nat i / of_nat n * 100\<rparr>) s xs) = results s" for xs
    by (induction xs arbitrary: s) simp_all
  then show ?thesis by (simp add: simulate_progress_def)
qed

lemma simulate_progress_isProcessing [simp]:
  "isProcessing (simulate_progress n s) = isProcessing s"
proof -
  have "isProcessing (foldl (\<lambda>s i. s\<lparr>progress := of_nat i / of_nat n * 100\<rparr>) s xs)
      = isProcessing s" for xs
    by (induction xs arbitrary: s) simp_all
  then show ?thesis by (simp add: simulate_progress_def)
qed

text \<open>
  C5, as the code has it. When the POST to \<open>/api/qsvc\<close> (or \<open>/api/adversarial\<close>) is
  rejected or answered with a response that is not ok, the handler sets the results to
  the mock object of its fallback branch, has issued that one request only, and ends with
  \<open>isProcessing\<close> false. On the Adversarial page the mock object is a constant. On the
  Quantum page it is a constant but for \<open>n_qubits\<close> and \<open>feature_dimension\<close>, which
  repeat the current settings of the page.
\<close>

theorem failed_request_falls_back:
  assumes "request_failed net"
  shows "results (fst (handleQuantumSimulation net q))
           = Some (QMock (quantum_fallback (nQubits q) (featureDimension q)))
       \<and> snd (handleQuantumSimulation net q) = [''/api/qsvc'']
       \<and> \<not> isProcessing (fst (handleQuantumSimulation net q))
       \<and> results (fst (handleAdversarialAttack net a)) = Some (AMock adversarial_fallback)
       \<and> snd (handleAdversarialAttack net a) = [''/api/adversarial'']
       \<and> \<not> isProcessing (fst (handleAdversarialAttack net a))"
  using assms
  by (cases net) (simp_all add: handleQuantumSimulation_def handleAdversarialAttack_def Let_def)

theorem failed_request_falls_back_witness:
  "request_failed (Response False ''Internal Server Error'' (JsonValue JNull))
   \<and> results (fst (handleQuantumSimulation
         (Response False ''Internal Server Error'' (JsonValue JNull)) quantum_initial))
       = Some (QMock (quantum_fallback 4 ''2''))
   \<and> snd (handleQuantumSimulation
         (Response False ''Internal Server Error'' (JsonValue JNull)) quantum_initial)
       = [''/api/qsvc'']
   \<and> results (fst (handleAdversarialAttack
         (Response False ''Internal Server Error'' (JsonValue JNull)) adversarial_initial))
       = Some (AMock adversarial_fallback)
   \<and> \<not> isProcessing (fst (handleAdversarialAttack
         (Response False ''Internal Server Error'' (JsonValue JNull)) adversarial_initial))"
proof -
  let ?net = "Response False ''Internal Server Error'' (JsonValue JNull)"
  have h: "request_failed ?net" by simp
  have q: "nQubits quantum_initial = 4" "featureDimension quantum_initial = ''2''"
    by (simp_all add: quantum_initial_def)
  show ?thesis
    using h failed_request_falls_back [OF h, of quantum_initial adversarial_initial]
    by (simp only: q simp_thms)
qed

text \<open>
  C5 as stated fails on the Quantum page: the mock object is not one fixed object. With
  the request rejected, the page with four qubits and the page with six qubits get
  different results.
\<close>

theorem quantum_fallback_counterexample:
  "request_failed (Rejected OtherValue)
   \<and> results (fst (handleQuantumSimulation (Rejected OtherValue) quantum_initial))
     \<noteq> results (fst (handleQuantumSimulation (Rejected OtherValue)
             (quantum_initial\<lparr>nQubits := 6\<rparr>)))"
  by (simp add: handleQuantumSimulation_def quantum_initial_def quantum_fallback_def Let_def)

subsection \<open>Failed requests on the DataUpload page\<close>







subsection \<open>The simulated training job\<close>

lemma finish_job_fields [simp]:
  "current (finish_job s) = 100" "\<not> interval (finish_job s)" "\<not> jobRunning (finish_job s)"
  "jobProgress (finish_job s) = 100"
  "mockResults (finish_job s) = mockResults s"
  "learningRate (finish_job s) = learningRate s" "epochs (finish_job s) = epochs s"
  by (simp_all add: finish_job_def split: prod.splits)

lemma tick_running:
  assumes "running s"
  shows "(running (tick s) \<and> current s + 1 \<le> current (tick s)
            \<and> store (tick s) = store s \<and> mockResults (tick s) = mockResults s
            \<and> learningRate (tick s) = learningRate s \<and> epochs (tick s) = epochs s)
         \<or> tick s = finish_job s"
  using assms by (auto simp: running_def tick_def Let_def)

lemma ticks_Suc_running: "running s \<Longrightarrow> ticks (Suc k) s = ticks k (tick s)"
  by (simp add: running_def)

lemma ticks_reach:
  "running s \<Longrightarrow>
     \<exists>n. 0 < n \<and> int n \<le> 100 - current s
        \<and> (\<forall>k<n. tick_ok s k)
        \<and> \<not> interval (ticks n s) \<and> jobProgress (ticks n s) = 100 \<and> \<not> jobRunning (ticks n s)"
proof (induction "nat (100 - current s)" arbitrary: s rule: less_induct)
  case less
  note run = \<open>running s\<close>
  from tick_running [OF run] show ?case
  proof
    assume fin: "tick s = finish_job s"
    have t1: "ticks (Suc 0) s = finish_job s" using run fin by (simp add: running_def)
    have "tick_ok s 0"
      using run t1 by (simp add: tick_ok_def running_def)
    then have "\<forall>k<Suc 0. tick_ok s k" by simp
    moreover have "int (Suc 0) \<le> 100 - current s" using run by (simp add: running_def)
    ultimately show ?thesis
      using t1 by (intro exI [of _ "Suc 0"]) simp
  next
    assume nxt: "running (tick s) \<and> current s + 1 \<le> current (tick s)
            \<and> store (tick s) = store s \<and> mockResults (tick s) = mockResults s
            \<and> learningRate (tick s) = learningRate s \<and> epochs (tick s) = epochs s"
    then have rt: "running (tick s)" and inc: "current s + 1 \<le> current (tick s)" by simp_all
    have lt: "nat (100 - current (tick s)) < nat (100 - current s)"
      using inc run rt by (simp add: running_def)
    from less.hyps [OF lt rt] obtain n where n: "0 < n" "int n \<le> 100 - current (tick s)"
      "\<forall>k<n. tick_ok (tick s) k"
      "\<not> interval (ticks n (tick s))" "jobProgress (ticks n (tick s)) = 100"
      "\<not> jobRunning (ticks n (tick s))"
      by blast
    have sh: "ticks (Suc k) s = ticks k (tick s)" for k
      using run by (rule ticks_Suc_running)
    have ok0: "tick_ok s 0"
      using run rt inc by (simp add: tick_ok_def running_def)
    have okS: "tick_ok s (Suc k)" if "k < n" for k
      using n(3) that by (simp add: tick_ok_def sh del: ticks.simps)
    have all: "\<forall>k<Suc n. tick_ok s k"
    proof (intro allI impI)
      fix k assume "k < Suc n"
      then show "tick_ok s k" using ok0 okS by (cases k) simp_all
    qed
    have "int (Suc n) \<le> 100 - current s" using n(2) inc by simp
    then show ?thesis
      using all n(4-6) by (intro exI [of _ "Suc n"]) (simp add: sh del: ticks.simps)
  qed
qed

lemma run_job_ticks:
  "(\<forall>k<n. interval (ticks k s)) \<Longrightarrow> \<not> interval (ticks n s) \<Longrightarrow> run_job s = ticks n s"
proof (induction n arbitrary: s)
  case 0
  then show ?case by (simp add: run_job.simps)
next
  case (Suc n)
  from Suc.prems(1) have i0: "interval s" by (auto dest: spec [of _ 0])
  have "\<forall>k<n. interval (ticks k (tick s))"
  proof (intro allI impI)
    fix k assume "k < n"
    then have "Suc k < Suc n" by simp
    with Suc.prems(1) have "interval (ticks (Suc k) s)" by blast
    then show "interval (ticks k (tick s))" using i0 by simp
  qed
  moreover have "\<not> interval (ticks n (tick s))" using Suc.prems(2) i0 by simp
  ultimately have "run_job (tick s) = ticks n (tick s)" by (rule Suc.IH)
  then show ?case using i0 by (simp add: run_job.simps [of s])
qed

lemma handleRunJob_running: "running (handleRunJob s)"
  by (simp add: running_def handleRunJob_def)

text \<open>
  C7. The simulated training run terminates. For every epochs value between 1 and 50
  there is a number \<open>n\<close> of timer ticks, at least 1 and at most 100, such that before
  each of the first \<open>n\<close> ticks the interval is still set and the progress is below 100,
  each of these ticks increases the progress by at least 1 and never beyond 100, and the
  \<open>n\<close>-th tick brings the progress to exactly 100, clears the interval and sets
  \<open>jobRunning\<close> to false; \<open>run_job\<close>, the timer loop, stops there.
\<close>

theorem training_run_terminates:
  assumes "1 \<le> epochs s" and "epochs s \<le> 50"
  shows "\<exists>n. 0 < n \<and> n \<le> 100
      \<and> (\<forall>k<n. interval (ticks k (handleRunJob s))
              \<and> jobProgress (ticks k (handleRunJob s)) < 100
              \<and> jobProgress (ticks k (handleRunJob s)) + 1
                   \<le> jobProgress (ticks (Suc k) (handleRunJob s))
              \<and> jobProgress (ticks (Suc k) (handleRunJob s)) \<le> 100)
      \<and> jobProgress (ticks n (handleRunJob s)) = 100
      \<and> \<not> interval (ticks n (handleRunJob s))
      \<and> \<not> jobRunning (ticks n (handleRunJob s))
      \<and> run_job (handleRunJob s) = ticks n (handleRunJob s)"
proof -
  let ?s = "handleRunJob s"
  from ticks_reach [OF handleRunJob_running [of s]]
  obtain n where n: "0 < n" "int n \<le> 100 - current ?s" "\<forall>k<n. tick_ok ?s k"
    "\<not> interval (ticks n ?s)" "jobProgress (ticks n ?s) = 100" "\<not> jobRunning (ticks n ?s)"
    by blast
  have "current ?s = 0" by (simp add: handleRunJob_def)
  with n(2) have le: "n \<le> 100" by simp
  have iv: "\<forall>k<n. interval (ticks k ?s)" using n(3) by (simp add: tick_ok_def)
  have rj: "run_job ?s = ticks n ?s" using iv n(4) by (rule run_job_ticks)
  show ?thesis
    using n(1) le n(3-6) rj
    by (intro exI [of _ n]) (simp add: tick_ok_def del: ticks.simps)
qed

theorem training_run_terminates_witness:
  "(1 :: real) \<le> epochs (demo_initial (1 / 1000) 10)
   \<and> epochs (demo_initial (1 / 1000) 10) \<le> 50
   \<and> jobProgress (ticks 3 (handleRunJob (demo_initial (1 / 1000) 10))) = 6
   \<and> jobProgress (run_job (handleRunJob (demo_initial (1 / 1000) 10))) = 100
   \<and> \<not> interval (run_job (handleRunJob (demo_initial (1 / 1000) 10)))
   \<and> \<not> jobRunning (run_job (handleRunJob (demo_initial (1 / 1000) 10)))"
proof -
  let ?s = "demo_initial (1 / 1000) 10"
  have h1: "1 \<le> epochs ?s" and h2: "epochs ?s \<le> 50" by (simp_all add: demo_initial_def)
  have t3: "jobProgress (ticks 3 (handleRunJob ?s)) = 6"
    by (simp add: numeral_3_eq_3 handleRunJob_def demo_initial_def tick_def Math_round_def
        Let_def floor_eq_iff)
  from training_run_terminates [OF h1 h2]
  obtain n where "jobProgress (ticks n (handleRunJob ?s)) = 100"
    "\<not> interval (ticks n (handleRunJob ?s))" "\<not> jobRunning (ticks n (handleRunJob ?s))"
    "run_job (handleRunJob ?s) = ticks n (handleRunJob ?s)"
    by blast
  then show ?thesis using h1 h2 t3 by (simp only: simp_thms)
qed


lemma run_job_finish:
  "running s \<Longrightarrow>
     \<exists>s'. run_job s = finish_job s' \<and> store s' = store s \<and> mockResults s' = mockResults s
        \<and> learningRate s' = learningRate s \<and> epochs s' = epochs s"
proof (induction "nat (100 - current s)" arbitrary: s rule: less_induct)
  case less
  note run = \<open>running s\<close>
  then have iv: "interval s" by (simp add: running_def)
  from tick_running [OF run] show ?case
  proof
    assume fin: "tick s = finish_job s"
    have "run_job s = run_job (finish_job s)" using iv fin by (simp add: run_job.simps [of s])
    also have "\<dots> = finish_job s" by (simp add: run_job.simps [of "finish_job s"])
    finally show ?thesis by blast
  next
    assume nxt: "running (tick s) \<and> current s + 1 \<le> current (tick s)
            \<and> store (tick s) = store s \<and> mockResults (tick s) = mockResults s
            \<and> learningRate (tick s) = learningRate s \<and> epochs (tick s) = epochs s"
    then have rt: "running (tick s)" and inc: "current s + 1 \<le> current (tick s)" by simp_all
    have lt: "nat (100 - current (tick s)) < nat (100 - current s)"
      using inc run rt by (simp add: running_def)
    from less.hyps [OF lt rt] obtain s' where "run_job (tick s) = finish_job s'"
      "store s' = store (tick s)" "mockResults s' = mockResults (tick s)"
      "learningRate s' = learningRate (tick s)" "epochs s' = epochs (tick s)"
      by blast
    moreover have "run_job s = run_job (tick s)" using iv by (simp add: run_job.simps [of s])
    ultimately show ?thesis using nxt by (intro exI [of _ s']) simp
  qed
qed

lemma map_copy_valid:
  "(\<forall>a\<in>set as. a < length h) \<Longrightarrow>
     map_copy lr h as = (h @ map (\<lambda>a. shifted lr (h ! a)) as, [length h ..< length h + length as])"
proof (induction as arbitrary: h)
  case Nil
  then show ?case by simp
next
  case (Cons a as)
  have v: "\<forall>b\<in>set as. b < length (h @ [shifted lr (h ! a)])" using Cons.prems by auto
  have m: "map (\<lambda>b. shifted lr ((h @ [shifted lr (h ! a)]) ! b)) as
         = map (\<lambda>b. shifted lr (h ! b)) as"
    using Cons.prems by (auto simp: nth_append)
  show ?case
    by (simp del: upt_Suc add: Cons.IH [OF v] m upt_conv_Cons)
qed

lemma mock_intact_store:
  assumes "mock_intact s"
  shows "3 \<le> length (store s)" and "\<forall>a\<in>set (mockResults s). a < length (store s)"
proof -
  have "length (take 3 (store s)) = 3" using assms by (simp add: mock_intact_def mock_store_def)
  then show "3 \<le> length (store s)" by simp
  then show "\<forall>a\<in>set (mockResults s). a < length (store s)"
    using assms by (auto simp: mock_intact_def)
qed

lemma finish_job_intact:
  assumes "mock_intact s"
  shows "mock_intact (finish_job s)"
    and "store (finish_job s) = store s @ map (\<lambda>a. shifted (learningRate s) (store s ! a)) [0, 1, 2]"
    and "jobResults (finish_job s)
          = Some [length (store s), length (store s) + 1, length (store s) + 2]"
proof -
  have mr: "mockResults s = [0, 1, 2]" using assms by (simp add: mock_intact_def)
  have mc: "map_copy (learningRate s) (store s) (mockResults s)
      = (store s @ map (\<lambda>a. shifted (learningRate s) (store s ! a)) (mockResults s),
         [length (store s) ..< length (store s) + length (mockResults s)])"
    by (rule map_copy_valid [OF mock_intact_store(2) [OF assms]])
  show st: "store (finish_job s)
      = store s @ map (\<lambda>a. shifted (learningRate s) (store s ! a)) [0, 1, 2]"
    by (simp add: finish_job_def mc) (simp add: mr)
  show "mock_intact (finish_job s)"
    using assms mock_intact_store(1) [OF assms] unfolding mock_intact_def st by simp
  have "[length (store s) ..< length (store s) + 3]
      = [length (store s), length (store s) + 1, length (store s) + 2]"
    by (simp add: upt_conv_Cons numeral_3_eq_3)
  then show "jobResults (finish_job s)
          = Some [length (store s), length (store s) + 1, length (store s) + 2]"
    by (simp add: finish_job_def mc mr)
qed


lemma toFixed3_ge: "of_int a / 1000 \<le> x \<Longrightarrow> of_int a / 1000 \<le> toFixed3 x"
proof -
  assume "of_int a / 1000 \<le> x"
  then have "of_int a \<le> x * 1000 + 1 / 2" by (simp add: field_simps)
  then have "a \<le> \<lfloor>x * 1000 + 1 / 2\<rfloor>" by (simp only: le_floor_iff)
  then have "(of_int a :: real) \<le> of_int \<lfloor>x * 1000 + 1 / 2\<rfloor>" by (simp only: of_int_le_iff)
  then show ?thesis by (simp add: toFixed3_def Math_round_def divide_right_mono)
qed

lemma toFixed3_le: "x \<le> of_int b / 1000 \<Longrightarrow> toFixed3 x \<le> of_int b / 1000"
proof -
  assume "x \<le> of_int b / 1000"
  then have "x * 1000 + 1 / 2 < of_int (b + 1)" by (simp add: field_simps)
  then have "\<lfloor>x * 1000 + 1 / 2\<rfloor> < b + 1" by (simp only: floor_less_iff)
  then have "\<lfloor>x * 1000 + 1 / 2\<rfloor> \<le> b" by simp
  then have "(of_int \<lfloor>x * 1000 + 1 / 2\<rfloor> :: real) \<le> of_int b" by (simp only: of_int_le_iff)
  then show ?thesis by (simp add: toFixed3_def Math_round_def divide_right_mono)
qed

lemma toFixed3_mono: "x \<le> y \<Longrightarrow> toFixed3 x \<le> toFixed3 y"
proof -
  assume "x \<le> y"
  then have "\<lfloor>x * 1000 + 1 / 2\<rfloor> \<le> \<lfloor>y * 1000 + 1 / 2\<rfloor>" by (intro floor_mono) simp
  then have "(of_int \<lfloor>x * 1000 + 1 / 2\<rfloor> :: real) \<le> of_int \<lfloor>y * 1000 + 1 / 2\<rfloor>"
    by (simp only: of_int_le_iff)
  then show ?thesis by (simp add: toFixed3_def Math_round_def divide_right_mono)
qed

lemma clamp_bounds:
  fixes lo hi x :: real
  assumes "lo \<le> hi"
  shows "lo \<le> max lo (min hi x) \<and> max lo (min hi x) \<le> hi"
  using assms by auto

lemma mock_metrics_bounds:
  "7 / 10 \<le> accuracy (mock_metrics lr ep) \<and> accuracy (mock_metrics lr ep) \<le> 99 / 100
   \<and> 65 / 100 \<le> precision (mock_metrics lr ep) \<and> precision (mock_metrics lr ep) \<le> 98 / 100
   \<and> 6 / 10 \<le> recall (mock_metrics lr ep) \<and> recall (mock_metrics lr ep) \<le> 97 / 100
   \<and> recall (mock_metrics lr ep) \<le> precision (mock_metrics lr ep)
   \<and> precision (mock_metrics lr ep) \<le> accuracy (mock_metrics lr ep)"
proof -
  define acc :: real
    where "acc = max (7 / 10) (min (99 / 100) (75 / 100 + log 10 (1 + lr) + ep * (2 / 1000)))"
  define prec :: real where "prec = max (65 / 100) (min (98 / 100) (acc - 2 / 100))"
  define rec :: real where "rec = max (6 / 10) (min (97 / 100) (acc - 3 / 100))"
  have m: "mock_metrics lr ep
      = \<lparr> accuracy = toFixed3 acc, precision = toFixed3 prec, recall = toFixed3 rec \<rparr>"
    by (simp add: mock_metrics_def Let_def acc_def prec_def rec_def)
  have a0: "7 / 10 \<le> acc \<and> acc \<le> 99 / 100"
    unfolding acc_def by (rule clamp_bounds) simp
  have p0: "65 / 100 \<le> prec \<and> prec \<le> 98 / 100"
    unfolding prec_def by (rule clamp_bounds) simp
  have r0: "6 / 10 \<le> rec \<and> rec \<le> 97 / 100"
    unfolding rec_def by (rule clamp_bounds) simp
  have a: "of_int 700 / 1000 \<le> acc" "acc \<le> of_int 990 / 1000" using a0 by simp_all
  have p: "of_int 650 / 1000 \<le> prec" "prec \<le> of_int 980 / 1000" using p0 by simp_all
  have r: "of_int 600 / 1000 \<le> rec" "rec \<le> of_int 970 / 1000" using r0 by simp_all
  have pa: "prec \<le> acc" using a0 unfolding prec_def by linarith
  have rp: "rec \<le> prec" using a0 unfolding prec_def rec_def by linarith
  show ?thesis
    unfolding m
    using toFixed3_ge [OF a(1)] toFixed3_le [OF a(2)] toFixed3_ge [OF p(1)] toFixed3_le [OF p(2)]
      toFixed3_ge [OF r(1)] toFixed3_le [OF r(2)] toFixed3_mono [OF pa] toFixed3_mono [OF rp]
    by simp
qed

lemma shifted_probability:
  "0 \<le> probability (shifted lr r) \<and> probability (shifted lr r) \<le> 1"
  by (simp add: shifted_def)

lemma handleRunJob_keeps:
  "store (handleRunJob s) = store s" "mockResults (handleRunJob s) = mockResults s"
  "learningRate (handleRunJob s) = learningRate s" "epochs (handleRunJob s) = epochs s"
  by (simp_all add: handleRunJob_def)

lemma job_finishes:
  assumes "mock_intact s"
  shows "\<exists>s'. run_job (handleRunJob s) = finish_job s' \<and> mock_intact s'
     \<and> store s' = store s \<and> learningRate s' = learningRate s \<and> epochs s' = epochs s"
proof -
  from run_job_finish [OF handleRunJob_running [of s]]
  obtain s' where s': "run_job (handleRunJob s) = finish_job s'"
    "store s' = store (handleRunJob s)" "mockResults s' = mockResults (handleRunJob s)"
    "learningRate s' = learningRate (handleRunJob s)" "epochs s' = epochs (handleRunJob s)"
    by blast
  have "mock_intact s'" using assms s'(2,3) by (simp add: mock_intact_def handleRunJob_keeps)
  then show ?thesis using s' by (intro exI [of _ s']) (simp add: handleRunJob_keeps)
qed

lemma intact_records:
  assumes "mock_intact s"
  shows "map (\<lambda>a. store s ! a) (mockResults s) = mock_store"
proof -
  have t: "take 3 (store s) = mock_store" and mr: "mockResults s = [0, 1, 2]"
    using assms by (simp_all add: mock_intact_def)
  have "store s ! i = mock_store ! i" if "i < 3" for i
    using that nth_take [of i 3 "store s"] t by simp
  then have "store s ! 0 = mock_store ! 0" "store s ! 1 = mock_store ! 1"
    "store s ! 2 = mock_store ! 2" by simp_all
  then show ?thesis by (simp add: mr mock_store_def)
qed

text \<open>
  C8. Running a simulated training job does not change the module-level mock constants:
  when \<open>mockResults\<close> holds its three original records before the job, it holds the same
  three records, with their original probabilities 0.94, 0.02 and 0.78, after the job has
  completed, and the records of \<open>jobResults\<close> are new objects, none of them a record of
  \<open>mockResults\<close>.
\<close>

theorem mock_constants_not_mutated:
  assumes "mock_intact s"
  shows "mockResults (run_job (handleRunJob s)) = [0, 1, 2]
     \<and> map (\<lambda>a. store (run_job (handleRunJob s)) ! a) (mockResults (run_job (handleRunJob s)))
         = mock_store
     \<and> map (\<lambda>a. probability (store (run_job (handleRunJob s)) ! a))
           (mockResults (run_job (handleRunJob s)))
         = [94 / 100, 2 / 100, 78 / 100]
     \<and> (\<exists>rs. jobResults (run_job (handleRunJob s)) = Some rs
           \<and> set rs \<inter> set (mockResults (run_job (handleRunJob s))) = {})"
proof -
  from job_finishes [OF assms] obtain s' where s': "run_job (handleRunJob s) = finish_job s'"
    "mock_intact s'" by blast
  let ?f = "finish_job s'"
  have i: "mock_intact ?f" by (rule finish_job_intact(1) [OF s'(2)])
  then have mr: "mockResults ?f = [0, 1, 2]" by (simp add: mock_intact_def)
  have recs: "map (\<lambda>a. store ?f ! a) (mockResults ?f) = mock_store" by (rule intact_records [OF i])
  have "map probability (map (\<lambda>a. store ?f ! a) (mockResults ?f)) = map probability mock_store"
    by (simp only: recs)
  then have probs: "map (\<lambda>a. probability (store ?f ! a)) (mockResults ?f)
      = [94 / 100, 2 / 100, 78 / 100]"
    by (simp add: mock_store_def comp_def)
  have jr: "jobResults ?f = Some [length (store s'), length (store s') + 1, length (store s') + 2]"
    by (rule finish_job_intact(3) [OF s'(2)])
  have "3 \<le> length (store s')" by (rule mock_intact_store(1) [OF s'(2)])
  moreover have "mockResults s' = [0, 1, 2]" using s'(2) by (simp add: mock_intact_def)
  ultimately have fresh: "set [length (store s'), length (store s') + 1, length (store s') + 2]
      \<inter> set (mockResults ?f) = {}"
    by auto
  show ?thesis
    unfolding s'(1) using mr recs probs jr fresh by simp
qed

theorem mock_constants_not_mutated_witness:
  "mock_intact (demo_initial (1 / 1000) 10)
   \<and> mockResults (run_job (handleRunJob (demo_initial (1 / 1000) 10))) = [0, 1, 2]
   \<and> map (\<lambda>a. probability (store (run_job (handleRunJob (demo_initial (1 / 1000) 10))) ! a))
         (mockResults (run_job (handleRunJob (demo_initial (1 / 1000) 10))))
       = [94 / 100, 2 / 100, 78 / 100]"
proof -
  have h: "mock_intact (demo_initial (1 / 1000) 10)"
    by (simp add: mock_intact_def demo_initial_def mock_store_def)
  show ?thesis
    using h mock_constants_not_mutated [OF h] by blast
qed

text \<open>
  C10. For every learning rate and number of epochs within the slider ranges
  (\<open>0.0001\<close> to \<open>0.01\<close>, and 1 to 50), the metrics set when the job completes have an
  accuracy in \<open>[0.7, 0.99]\<close>, a precision in \<open>[0.65, 0.98]\<close> and a recall in
  \<open>[0.6, 0.97]\<close>, with recall \<open>\<le>\<close> precision \<open>\<le>\<close> accuracy, and every record of the
  results has a probability in \<open>[0, 1]\<close>.
\<close>

theorem mock_metrics_in_range:
  assumes "1 / 10000 \<le> learningRate s" and "learningRate s \<le> 1 / 100"
    and "1 \<le> epochs s" and "epochs s \<le> 50"
    and "mock_intact s"
  shows "\<exists>m rs. jobMetrics (run_job (handleRunJob s)) = Some m
     \<and> 7 / 10 \<le> accuracy m \<and> accuracy m \<le> 99 / 100
     \<and> 65 / 100 \<le> precision m \<and> precision m \<le> 98 / 100
     \<and> 6 / 10 \<le> recall m \<and> recall m \<le> 97 / 100
     \<and> recall m \<le> precision m \<and> precision m \<le> accuracy m
     \<and> jobResults (run_job (handleRunJob s)) = Some rs
     \<and> (\<forall>a\<in>set rs. 0 \<le> probability (store (run_job (handleRunJob s)) ! a)
                   \<and> probability (store (run_job (handleRunJob s)) ! a) \<le> 1)"
proof -
  from job_finishes [OF assms(5)] obtain s' where s': "run_job (handleRunJob s) = finish_job s'"
    "mock_intact s'" by blast
  let ?f = "finish_job s'"
  let ?n = "length (store s')"
  have jm: "jobMetrics ?f = Some (mock_metrics (learningRate s') (epochs s'))"
    by (simp add: finish_job_def split: prod.splits)
  have st: "store ?f = store s' @ map (\<lambda>a. shifted (learningRate s') (store s' ! a)) [0, 1, 2]"
    by (rule finish_job_intact(2) [OF s'(2)])
  have jr: "jobResults ?f = Some [?n, ?n + 1, ?n + 2]"
    by (rule finish_job_intact(3) [OF s'(2)])
  have pr: "\<forall>a\<in>set [?n, ?n + 1, ?n + 2].
      0 \<le> probability (store ?f ! a) \<and> probability (store ?f ! a) \<le> 1"
    unfolding st by (simp add: nth_append shifted_probability)
  show ?thesis
    unfolding s'(1)
    using jm jr pr mock_metrics_bounds [of "learningRate s'" "epochs s'"]
    by (intro exI [of _ "mock_metrics (learningRate s') (epochs s')"]
        exI [of _ "[?n, ?n + 1, ?n + 2]"]) simp
qed

theorem mock_metrics_in_range_witness:
  "1 / 10000 \<le> learningRate (demo_initial (1 / 1000) 10)
   \<and> learningRate (demo_initial (1 / 1000) 10) \<le> 1 / 100
   \<and> 1 \<le> epochs (demo_initial (1 / 1000) 10)
   \<and> epochs (demo_initial (1 / 1000) 10) \<le> 50
   \<and> mock_intact (demo_initial (1 / 1000) 10)
   \<and> (\<exists>m. jobMetrics (run_job (handleRunJob (demo_initial (1 / 1000) 10))) = Some m
          \<and> 7 / 10 \<le> accuracy m \<and> accuracy m \<le> 99 / 100
          \<and> recall m \<le> precision m \<and> precision m \<le> accuracy m)"
proof -
  let ?s = "demo_initial (1 / 1000) 10"
  have h1: "1 / 10000 \<le> learningRate ?s" and h2: "learningRate ?s \<le> 1 / 100"
    and h3: "1 \<le> epochs ?s" and h4: "epochs ?s \<le> 50"
    by (simp_all add: demo_initial_def)
  have h5: "mock_intact ?s"
    by (simp add: mock_intact_def demo_initial_def mock_store_def)
  from mock_metrics_in_range [OF h1 h2 h3 h4 h5]
  obtain m where "jobMetrics (run_job (handleRunJob ?s)) = Some m"
    "7 / 10 \<le> accuracy m" "accuracy m \<le> 99 / 100"
    "recall m \<le> precision m" "precision m \<le> accuracy m"
    by blast
  then have "\<exists>m. jobMetrics (run_job (handleRunJob ?s)) = Some m
          \<and> 7 / 10 \<le> accuracy m \<and> accuracy m \<le> 99 / 100
          \<and> recall m \<le> precision m \<and> precision m \<le> accuracy m"
    by blast
  then show ?thesis using h1 h2 h3 h4 h5 by (simp only: simp_thms)
qed

subsection \<open>Reading a light curve\<close>

lemma lit_time: "lit ''time'' = [116, 105, 109, 101]"
  by (simp add: lit_def)

lemma lit_flux: "lit ''flux'' = [102, 108, 117, 120]"
  by (simp add: lit_def)

lemma index_Some: "i < length xs \<Longrightarrow> index xs i = Some (xs ! i)"
  by (simp add: index_def)

lemma parse_rows_eq:
  "parse_rows Number lines i out
     = Inr (out @ List.map_filter (parse_line Number) (drop i lines))"
proof (induction Number lines i out rule: parse_rows.induct)
  case (1 Number lines i out)
  show ?case
  proof (cases "i < length lines")
    case False
    then show ?thesis by (simp add: parse_rows.simps [of Number lines i out])
  next
    case True
    then have ix: "index lines i = Some (lines ! i)" by (rule index_Some)
    have dr: "drop i lines = lines ! i # drop (Suc i) lines"
      using True by (simp add: Cons_nth_drop_Suc)
    show ?thesis
    proof (cases "parse_line Number (lines ! i)")
      case None
      with "1.IH"(1) [OF True ix None] True ix show ?thesis
        by (simp add: parse_rows.simps [of Number lines i out] dr)
    next
      case (Some point)
      with "1.IH"(2) [OF True ix Some] True ix show ?thesis
        by (simp add: parse_rows.simps [of Number lines i out] dr)
    qed
  qed
qed

lemma parse_line_finite:
  "parse_line Number line = Some p \<Longrightarrow> isFinite (time p) \<and> isFinite (flux p)"
  by (auto simp: parse_line_def Let_def split: if_splits)

lemma map_filter_finite:
  "\<forall>p\<in>set (List.map_filter (parse_line Number) ls). isFinite (time p) \<and> isFinite (flux p)"
proof (induction ls)
  case Nil
  then show ?case by simp
next
  case (Cons l ls)
  then show ?case
    by (cases "parse_line Number l") (auto dest: parse_line_finite)
qed

lemma length_filter_mono:
  "(\<And>x. P x \<Longrightarrow> Q x) \<Longrightarrow> length (filter P xs) \<le> length (filter Q xs)"
  by (induction xs) auto

lemma trim_Nil [simp]: "trim [] = []"
  by (simp add: trim_def)

lemma nonblank_le_nonempty:
  "length (nonblank_lines text) \<le> length (filter (\<lambda>l. l \<noteq> []) (split_lines text))"
  unfolding nonblank_lines_def by (rule length_filter_mono) auto

lemma parseCsvLightCurve_eq:
  "parseCsvLightCurve lower Number text =
     Inr (case nonblank_lines text of
            [] \<Rightarrow> []
          | first # rest \<Rightarrow>
              List.map_filter (parse_line Number)
                (if is_header lower first then rest else first # rest))"
  by (cases "nonblank_lines text")
    (simp_all add: parseCsvLightCurve_def Let_def index_def parse_rows_eq)

text \<open>
  C9. \<open>parseCsvLightCurve\<close> is total and its output is well formed. For every input
  string, and whatever \<open>Number\<close> and \<open>toLowerCase\<close> compute, it returns a list and does
  not throw; every record of the list has a finite time and a finite flux; the list has
  at most as many records as the input has lines that are not blank, hence at most as many
  as it has non-empty lines; it is empty when the input has no non-empty line; and the
  first of the lines that are not blank is skipped exactly when its lower-case form
  contains both \<open>time\<close> and \<open>flux\<close>: the records are those of the lines after it in that
  case, and those of all the lines otherwise.
\<close>

theorem parseCsvLightCurve_total:
  "\<exists>out. parseCsvLightCurve lower Number text = Inr out
     \<and> (\<forall>p\<in>set out. isFinite (time p) \<and> isFinite (flux p))
     \<and> length out \<le> length (nonblank_lines text)
     \<and> length out \<le> length (filter (\<lambda>l. l \<noteq> []) (split_lines text))
     \<and> (filter (\<lambda>l. l \<noteq> []) (split_lines text) = [] \<longrightarrow> out = [])
     \<and> (\<forall>first rest. nonblank_lines text = first # rest \<longrightarrow>
           out = List.map_filter (parse_line Number)
                   (if str_includes (lower first) (lit ''time'')
                       \<and> str_includes (lower first) (lit ''flux'')
                    then rest else first # rest))"
proof -
  define out where "out = (case nonblank_lines text of
            [] \<Rightarrow> []
          | first # rest \<Rightarrow>
              List.map_filter (parse_line Number)
                (if is_header lower first then rest else first # rest))"
  have r: "parseCsvLightCurve lower Number text = Inr out"
    unfolding out_def by (rule parseCsvLightCurve_eq)
  have fin: "\<forall>p\<in>set out. isFinite (time p) \<and> isFinite (flux p)"
  proof (cases "nonblank_lines text")
    case Nil
    then show ?thesis by (simp add: out_def)
  next
    case (Cons first rest)
    then have "out = List.map_filter (parse_line Number)
        (if is_header lower first then rest else first # rest)"
      by (simp only: out_def list.case)
    with map_filter_finite [of Number "if is_header lower first then rest else first # rest"]
    show ?thesis by (simp only:)
  qed
  have len: "length out \<le> length (nonblank_lines text)"
  proof (cases "nonblank_lines text")
    case Nil
    then show ?thesis by (simp add: out_def)
  next
    case (Cons first rest)
    have "length (List.map_filter (parse_line Number) ls) \<le> length ls" for ls
      by (simp add: map_filter_def)
    from this [of rest] this [of "first # rest"] show ?thesis
      by (simp add: out_def Cons)
  qed
  have len2: "length out \<le> length (filter (\<lambda>l. l \<noteq> []) (split_lines text))"
    using len nonblank_le_nonempty [of "text"] by simp
  have emp: "filter (\<lambda>l. l \<noteq> []) (split_lines text) = [] \<longrightarrow> out = []"
    using len2 by auto
  have hdr: "\<forall>first rest. nonblank_lines text = first # rest \<longrightarrow>
           out = List.map_filter (parse_line Number)
                   (if str_includes (lower first) (lit ''time'')
                       \<and> str_includes (lower first) (lit ''flux'')
                    then rest else first # rest)"
    by (simp add: out_def is_header_def Let_def)
  show ?thesis
    using r fin len len2 emp hdr by blast
qed

lemma example_lines: "nonblank_lines [84, 105, 109, 101, 44, 70, 108, 117, 120, 10, 32, 10, 49, 44, 50]
   = [[84, 105, 109, 101, 44, 70, 108, 117, 120], [49, 44, 50]]"
  by (simp add: nonblank_lines_def trim_def is_white_def)

lemma example_header: "str_includes (ascii_lower [84, 105, 109, 101, 44, 70, 108, 117, 120]) (lit ''time'')
  \<and> str_includes (ascii_lower [84, 105, 109, 101, 44, 70, 108, 117, 120]) (lit ''flux'')"
  by (simp add: ascii_lower_def lit_time lit_flux)

lemma example_rows: "List.map_filter (parse_line digits_Number) [[49, 44, 50]]
   = [\<lparr> time = Finite 1, flux = Finite 2 \<rparr>]"
  by (simp add: parse_line_def index_def Number_of_def digits_Number_def
      is_white_def Let_def)

theorem parseCsvLightCurve_total_witness:
  "parseCsvLightCurve ascii_lower digits_Number
     [84, 105, 109, 101, 44, 70, 108, 117, 120, 10, 32, 10, 49, 44, 50]
   = Inr [\<lparr> time = Finite 1, flux = Finite 2 \<rparr>]"
proof -
  let ?input = "[84, 105, 109, 101, 44, 70, 108, 117, 120, 10, 32, 10, 49, 44, 50]"
  let ?first = "[84, 105, 109, 101, 44, 70, 108, 117, 120]"
  from parseCsvLightCurve_total [of ascii_lower digits_Number ?input]
  obtain out where r: "parseCsvLightCurve ascii_lower digits_Number ?input = Inr out"
    and hdr: "\<forall>first rest. nonblank_lines ?input = first # rest \<longrightarrow>
           out = List.map_filter (parse_line digits_Number)
                   (if str_includes (ascii_lower first) (lit ''time'')
                       \<and> str_includes (ascii_lower first) (lit ''flux'')
                    then rest else first # rest)"
    by blast
  from hdr example_lines
  have "out = List.map_filter (parse_line digits_Number)
                   (if str_includes (ascii_lower ?first) (lit ''time'')
                       \<and> str_includes (ascii_lower ?first) (lit ''flux'')
                    then [[49, 44, 50]] else ?first # [[49, 44, 50]])"
    by blast
  then have "out = List.map_filter (parse_line digits_Number) [[49, 44, 50]]"
    using example_header by (simp only: if_True simp_thms)
  then show ?thesis using r example_rows by (simp only:)
qed

end
